theory Spec2Isabelle
  imports Main "HOL-Library.Word"
begin

text \<open>
  A shallow embedding of the edge/core message-delivery subsystem of shingo-core:
  the PLC counter delta calculator, the outbox store and its drainers, the fleet
  poller, the protocol ingestor, the hourly tracker, the heartbeater's publish
  helper, the stop gates of the background loops and the core handler's production
  report.  Calls that leave the process (the message bus, the SQL driver, the fleet
  HTTP API, the JSON decoder, the wall clock) are inputs of the functions that make
  them: each model takes the outcome of the call as an argument and returns the new
  state together with the calls it made.
\<close>

section \<open>Counter delta calculator (package plc)\<close>

text \<open>
  Go's \<open>int64\<close>: a 64-bit word read in two's complement.  \<open>+\<close> and \<open>-\<close> wrap
  around as Go's do; \<open><s\<close> and \<open>\<le>s\<close> are the signed comparisons.
\<close>

type_synonym int64 = "64 word"

definition max16 :: int64 where
  "max16 = push_bit 16 1 - 1"

definition max32 :: int64 where
  "max32 = push_bit 32 1 - 1"

text \<open>
  \<open>tryRollover\<close>: the loop \<open>for _, max := range []int64{max16, max32}\<close>, as a
  recursion over the list of widths.  The first width that fits returns.
\<close>

fun tryRollover_loop :: "int64 list \<Rightarrow> int64 \<Rightarrow> int64 \<Rightarrow> int64 \<Rightarrow> int64" where
  "tryRollover_loop [] lastCount newCount jumpThreshold = 0"
| "tryRollover_loop (mx # rest) lastCount newCount jumpThreshold =
     (if lastCount \<le>s mx then
        (let d = (mx - lastCount) + newCount + 1 in
         if 0 <s d \<and> d \<le>s jumpThreshold then d
         else tryRollover_loop rest lastCount newCount jumpThreshold)
      else tryRollover_loop rest lastCount newCount jumpThreshold)"

definition tryRollover :: "int64 \<Rightarrow> int64 \<Rightarrow> int64 \<Rightarrow> int64" where
  "tryRollover lastCount newCount jumpThreshold =
     tryRollover_loop [max16, max32] lastCount newCount jumpThreshold"

definition CalculateDelta :: "int64 \<Rightarrow> int64 \<Rightarrow> int64 \<Rightarrow> int64 \<times> string" where
  "CalculateDelta lastCount newCount jumpThreshold =
     (if newCount = lastCount then (0, '''')
      else if newCount <s lastCount then
        (let rollover = tryRollover lastCount newCount jumpThreshold in
         if 0 <s rollover then (rollover, '''') else (newCount, ''reset''))
      else
        (let delta = newCount - lastCount in
         if jumpThreshold <s delta then (delta, ''jump'') else (delta, '''')))"

lemma max16_val: "max16 = 65535"
  by (simp add: max16_def)

lemma max32_val: "max32 = 4294967295"
  by (simp add: max32_def)

lemma sint_max16: "sint max16 = 65535"
  by (simp add: max16_val)

lemma sint_max32: "sint max32 = 4294967295"
  by (simp add: max32_val)

text \<open>
  The rollover delta never overflows: with \<open>new < last \<le> max\<close> its value in the
  integers lies between \<open>-2^63 + 1\<close> and \<open>max\<close>, so the wrapped \<open>int64\<close> sum is
  the integer sum, whatever the intermediate results do.
\<close>

lemma rollover_exact:
  fixes lastCount newCount mx :: int64
  assumes mx: "0 \<le> sint mx" and le: "lastCount \<le>s mx" and lt: "newCount <s lastCount"
  shows "sint ((mx - lastCount) + newCount + 1) = (sint mx - sint lastCount) + sint newCount + 1"
proof -
  have a: "sint lastCount \<le> sint mx" using le by (simp add: word_sle_eq)
  have b: "sint newCount < sint lastCount" using lt by (simp add: word_sless_alt)
  have lo: "- (2 ^ 63) \<le> sint newCount" using sint_ge [of newCount] by simp
  have hi: "sint mx < 2 ^ 63" using sint_lt [of mx] by simp
  let ?v = "(sint mx - sint lastCount) + sint newCount + 1"
  have r1: "- (2 ^ 63) \<le> ?v" using a lo by linarith
  have r2: "?v < 2 ^ 63" using b hi by linarith
  have "(mx - lastCount) + newCount + 1 = word_of_int ?v"
    by simp
  then have "sint ((mx - lastCount) + newCount + 1) = signed_take_bit 63 ?v"
    by (simp only: sint_sbintrunc') simp
  also have "\<dots> = ?v"
    using r1 r2 by (simp add: signed_take_bit_int_eq_self)
  finally show ?thesis .
qed

lemma tryRollover_unfold:
  "tryRollover l n j =
     (let d16 = (max16 - l) + n + 1; d32 = (max32 - l) + n + 1 in
      if l \<le>s max16 \<and> 0 <s d16 \<and> d16 \<le>s j then d16
      else if l \<le>s max32 \<and> 0 <s d32 \<and> d32 \<le>s j then d32
      else 0)"
  by (simp add: tryRollover_def Let_def)
text \<open>
  The difference \<open>newCount - lastCount\<close> of the last branch, read in the integers.
  With \<open>new > last\<close> it lies between 1 and \<open>2^64 - 1\<close>: up to \<open>2^63 - 1\<close> the
  \<open>int64\<close> difference is that number, beyond it Go's subtraction wraps and gives
  the number less \<open>2^64\<close>, which is negative.
\<close>

lemma difference_exact:
  fixes lastCount newCount :: int64
  assumes "sint lastCount < sint newCount" and "sint newCount - sint lastCount < 2 ^ 63"
  shows "sint (newCount - lastCount) = sint newCount - sint lastCount"
proof -
  let ?v = "sint newCount - sint lastCount"
  have "newCount - lastCount = word_of_int ?v" by simp
  then have "sint (newCount - lastCount) = signed_take_bit 63 ?v"
    by (simp only: sint_sbintrunc') simp
  also have "\<dots> = ?v"
    using assms by (simp add: signed_take_bit_int_eq_self)
  finally show ?thesis .
qed

lemma difference_wrapped:
  fixes lastCount newCount :: int64
  assumes "2 ^ 63 \<le> sint newCount - sint lastCount"
  shows "sint (newCount - lastCount) = sint newCount - sint lastCount - 2 ^ 64"
proof -
  let ?v = "sint newCount - sint lastCount - 2 ^ 64"
  have hi: "sint newCount < 2 ^ 63" using sint_lt [of newCount] by simp
  have lo: "- (2 ^ 63) \<le> sint lastCount" using sint_ge [of lastCount] by simp
  have r1: "- (2 ^ 63) \<le> ?v" using assms by simp
  have r2: "?v < 2 ^ 63" using hi lo by simp
  have "(word_of_int (2 ^ 64) :: int64) = 0" by simp
  then have "newCount - lastCount = word_of_int ?v" by simp
  then have "sint (newCount - lastCount) = signed_take_bit 63 ?v"
    by (simp only: sint_sbintrunc') simp
  also have "\<dots> = ?v"
    using r1 r2 by (simp add: signed_take_bit_int_eq_self)
  finally show ?thesis .
qed

lemma CalculateDelta_forward:
  assumes "lastCount <s newCount"
  shows "CalculateDelta lastCount newCount jumpThreshold =
           (newCount - lastCount,
            if sint jumpThreshold < sint (newCount - lastCount) then ''jump'' else '''')"
proof -
  from assms have "newCount \<noteq> lastCount" "\<not> newCount <s lastCount" by auto
  then show ?thesis
    by (simp add: CalculateDelta_def Let_def word_sless_alt)
qed

lemma CalculateDelta_backward:
  assumes lt: "newCount <s lastCount"
  shows "(\<exists>mx \<in> {max16, max32}.
            lastCount \<le>s mx
          \<and> 0 <s (mx - lastCount) + newCount + 1
          \<and> (mx - lastCount) + newCount + 1 \<le>s jumpThreshold
          \<and> sint ((mx - lastCount) + newCount + 1) = (sint mx - sint lastCount) + sint newCount + 1
          \<and> CalculateDelta lastCount newCount jumpThreshold = ((mx - lastCount) + newCount + 1, ''''))
        \<or> ((\<forall>mx \<in> {max16, max32}.
               \<not> (lastCount \<le>s mx
                  \<and> 0 <s (mx - lastCount) + newCount + 1
                  \<and> (mx - lastCount) + newCount + 1 \<le>s jumpThreshold))
           \<and> CalculateDelta lastCount newCount jumpThreshold = (newCount, ''reset''))"
proof -
  from lt have ne: "newCount \<noteq> lastCount" by auto
  let ?d16 = "(max16 - lastCount) + newCount + 1"
  let ?d32 = "(max32 - lastCount) + newCount + 1"
  let ?ok16 = "lastCount \<le>s max16 \<and> 0 <s ?d16 \<and> ?d16 \<le>s jumpThreshold"
  let ?ok32 = "lastCount \<le>s max32 \<and> 0 <s ?d32 \<and> ?d32 \<le>s jumpThreshold"
  consider (a) "?ok16" | (b) "\<not> ?ok16" "?ok32" | (c) "\<not> ?ok16" "\<not> ?ok32" by blast
  then show ?thesis
  proof cases
    case a
    then have r: "tryRollover lastCount newCount jumpThreshold = ?d16"
      by (simp add: tryRollover_unfold Let_def)
    have e: "sint ?d16 = (sint max16 - sint lastCount) + sint newCount + 1"
      using a lt by (intro rollover_exact) (simp_all add: sint_max16)
    have "CalculateDelta lastCount newCount jumpThreshold = (?d16, '''')"
      using a lt ne r by (simp add: CalculateDelta_def Let_def)
    with a e show ?thesis by blast
  next
    case b
    then have r: "tryRollover lastCount newCount jumpThreshold = ?d32"
      by (auto simp add: tryRollover_unfold Let_def)
    have e: "sint ?d32 = (sint max32 - sint lastCount) + sint newCount + 1"
      using b lt by (intro rollover_exact) (simp_all add: sint_max32)
    have "CalculateDelta lastCount newCount jumpThreshold = (?d32, '''')"
      using b lt ne r by (simp add: CalculateDelta_def Let_def)
    with b e show ?thesis by blast
  next
    case c
    then have r: "tryRollover lastCount newCount jumpThreshold = 0"
      by (auto simp add: tryRollover_unfold Let_def)
    have "CalculateDelta lastCount newCount jumpThreshold = (newCount, ''reset'')"
      using lt ne r by (simp add: CalculateDelta_def Let_def)
    with c show ?thesis by blast
  qed
qed
text \<open>
  C1, as amended.  For all \<open>int64\<close> inputs, \<open>CalculateDelta last new jump\<close> returns
  \<open>(0, "")\<close> when \<open>new = last\<close>; when \<open>new < last\<close>, \<open>(d, "")\<close> for a width
  \<open>max\<close> among 65535 and 4294967295 with \<open>last \<le> max\<close> whose
  \<open>d = (max - last) + new + 1\<close> satisfies \<open>0 < d \<le> jump\<close> (and that \<open>d\<close> is the
  same number in the integers: nothing wraps), and \<open>(new, "reset")\<close> when neither
  width gives such a \<open>d\<close>; when \<open>new > last\<close> and the difference \<open>new - last\<close> is at
  most \<open>2^63 - 1\<close> (it always is when \<open>last \<ge> 0\<close>), \<open>(new - last, "jump")\<close> if
  \<open>new - last > jump\<close> and \<open>(new - last, "")\<close> otherwise; when \<open>new > last\<close> and the
  difference exceeds \<open>2^63 - 1\<close>, the delta returned is the difference less \<open>2^64\<close>, a
  negative number, and it is that number which is compared with \<open>jump\<close>.  The three
  scenarios of the specification evaluate to \<open>(11, "")\<close>, \<open>(5, "reset")\<close> and
  \<open>(49900, "jump")\<close>.
\<close>

theorem CalculateDelta_cases:
  fixes lastCount newCount jumpThreshold :: int64
  shows
  "(newCount = lastCount \<longrightarrow> CalculateDelta lastCount newCount jumpThreshold = (0, ''''))
   \<and> (newCount <s lastCount \<longrightarrow>
        (\<exists>mx \<in> {max16, max32}.
            lastCount \<le>s mx
          \<and> 0 <s (mx - lastCount) + newCount + 1
          \<and> (mx - lastCount) + newCount + 1 \<le>s jumpThreshold
          \<and> sint ((mx - lastCount) + newCount + 1) = (sint mx - sint lastCount) + sint newCount + 1
          \<and> CalculateDelta lastCount newCount jumpThreshold = ((mx - lastCount) + newCount + 1, ''''))
        \<or> ((\<forall>mx \<in> {max16, max32}.
               \<not> (lastCount \<le>s mx
                  \<and> 0 <s (mx - lastCount) + newCount + 1
                  \<and> (mx - lastCount) + newCount + 1 \<le>s jumpThreshold))
           \<and> CalculateDelta lastCount newCount jumpThreshold = (newCount, ''reset'')))
   \<and> (lastCount <s newCount \<and> sint newCount - sint lastCount < 2 ^ 63 \<longrightarrow>
        sint (newCount - lastCount) = sint newCount - sint lastCount
        \<and> CalculateDelta lastCount newCount jumpThreshold =
            (newCount - lastCount,
             if sint jumpThreshold < sint newCount - sint lastCount then ''jump'' else ''''))
   \<and> (lastCount <s newCount \<and> 2 ^ 63 \<le> sint newCount - sint lastCount \<longrightarrow>
        sint (newCount - lastCount) = sint newCount - sint lastCount - 2 ^ 64
        \<and> CalculateDelta lastCount newCount jumpThreshold =
            (newCount - lastCount,
             if sint jumpThreshold < sint newCount - sint lastCount - 2 ^ 64 then ''jump'' else ''''))
   \<and> (0 \<le>s lastCount \<longrightarrow> sint newCount - sint lastCount < 2 ^ 63)
   \<and> max16 = 65535 \<and> max32 = 4294967295
   \<and> CalculateDelta 65530 5 1000 = (11, '''')
   \<and> CalculateDelta 65530 5 5 = (5, ''reset'')
   \<and> CalculateDelta 100 50000 1000 = (49900, ''jump'')"
proof (intro conjI impI)
  show "newCount = lastCount \<Longrightarrow> CalculateDelta lastCount newCount jumpThreshold = (0, '''')"
    by (simp add: CalculateDelta_def)
next
  assume "newCount <s lastCount"
  then show "(\<exists>mx \<in> {max16, max32}.
            lastCount \<le>s mx
          \<and> 0 <s (mx - lastCount) + newCount + 1
          \<and> (mx - lastCount) + newCount + 1 \<le>s jumpThreshold
          \<and> sint ((mx - lastCount) + newCount + 1) = (sint mx - sint lastCount) + sint newCount + 1
          \<and> CalculateDelta lastCount newCount jumpThreshold = ((mx - lastCount) + newCount + 1, ''''))
        \<or> ((\<forall>mx \<in> {max16, max32}.
               \<not> (lastCount \<le>s mx
                  \<and> 0 <s (mx - lastCount) + newCount + 1
                  \<and> (mx - lastCount) + newCount + 1 \<le>s jumpThreshold))
           \<and> CalculateDelta lastCount newCount jumpThreshold = (newCount, ''reset''))"
    by (rule CalculateDelta_backward)
next
  assume a: "lastCount <s newCount \<and> sint newCount - sint lastCount < 2 ^ 63"
  then have lt: "sint lastCount < sint newCount" by (simp add: word_sless_alt)
  from lt a show e: "sint (newCount - lastCount) = sint newCount - sint lastCount"
    by (simp add: difference_exact)
  from a show "CalculateDelta lastCount newCount jumpThreshold =
            (newCount - lastCount,
             if sint jumpThreshold < sint newCount - sint lastCount then ''jump'' else '''')"
    by (simp add: CalculateDelta_forward e)
next
  assume a: "lastCount <s newCount \<and> 2 ^ 63 \<le> sint newCount - sint lastCount"
  then show e: "sint (newCount - lastCount) = sint newCount - sint lastCount - 2 ^ 64"
    by (simp add: difference_wrapped)
  from a show "CalculateDelta lastCount newCount jumpThreshold =
            (newCount - lastCount,
             if sint jumpThreshold < sint newCount - sint lastCount - 2 ^ 64 then ''jump'' else '''')"
    by (simp add: CalculateDelta_forward e)
next
  assume "0 \<le>s lastCount"
  then have "0 \<le> sint lastCount" by (simp add: word_sle_eq)
  moreover have "sint newCount < 2 ^ 63" using sint_lt [of newCount] by simp
  ultimately show "sint newCount - sint lastCount < 2 ^ 63" by simp
next
  show "max16 = 65535" by (rule max16_val)
  show "max32 = 4294967295" by (rule max32_val)
  show "CalculateDelta 65530 5 1000 = (11, '''')"
    by (simp add: CalculateDelta_def tryRollover_def max16_val max32_val word_sless_alt word_sle_eq)
  show "CalculateDelta 65530 5 5 = (5, ''reset'')"
    by (simp add: CalculateDelta_def tryRollover_def max16_val max32_val word_sless_alt word_sle_eq)
  show "CalculateDelta 100 50000 1000 = (49900, ''jump'')"
    by (simp add: CalculateDelta_def tryRollover_def max16_val max32_val word_sless_alt word_sle_eq)
qed

theorem CalculateDelta_cases_witness:
  "CalculateDelta 7 7 100 = (0, '''')
   \<and> (5::int64) <s 65530
   \<and> (\<exists>mx \<in> {max16, max32}.
          (65530::int64) \<le>s mx
        \<and> 0 <s (mx - 65530) + 5 + 1
        \<and> (mx - 65530) + 5 + 1 \<le>s 1000
        \<and> CalculateDelta 65530 5 1000 = ((mx - 65530) + 5 + 1, ''''))
   \<and> CalculateDelta 65530 5 5 = (5, ''reset'')
   \<and> (100::int64) <s 50000
   \<and> sint (50000::int64) - sint (100::int64) < 2 ^ 63
   \<and> CalculateDelta 100 50000 1000 = (50000 - 100, ''jump'')
   \<and> CalculateDelta 100 50000 49900 = (49900, '''')
   \<and> (- 1 :: int64) <s 9223372036854775807
   \<and> (2 :: int) ^ 63 \<le> sint (9223372036854775807 :: int64) - sint (- 1 :: int64)
   \<and> CalculateDelta (- 1) 9223372036854775807 1000 = (9223372036854775807 - (- 1), '''')
   \<and> (0 :: int64) \<le>s 100"
proof -
  have ev: "(5::int64) <s 65530" "(100::int64) <s 50000"
    "sint (50000::int64) - sint (100::int64) < 2 ^ 63"
    "sint (1000::int64) < sint (50000::int64) - sint (100::int64)"
    "\<not> sint (49900::int64) < sint (50000::int64) - sint (100::int64)"
    "(0 :: int64) \<le>s 100"
    by (simp_all add: word_sless_alt word_sle_eq)
  have ov: "(- 1 :: int64) <s 9223372036854775807"
    "(2 :: int) ^ 63 \<le> sint (9223372036854775807 :: int64) - sint (- 1 :: int64)"
    "\<not> sint (1000::int64) < sint (9223372036854775807 :: int64) - sint (- 1 :: int64) - 2 ^ 64"
    by (simp_all add: word_sless_alt)
  have e16: "(65530::int64) \<le>s max16" "(0::int64) <s (max16 - 65530) + 5 + 1"
    "(max16 - 65530) + 5 + 1 \<le>s (1000::int64)"
    by (simp_all add: max16_val word_sless_alt word_sle_eq)
  have n16: "\<not> ((max16 - 65530) + 5 + 1 \<le>s (5::int64))"
    and n32: "\<not> ((max32 - 65530) + 5 + 1 \<le>s (5::int64))"
    by (simp_all add: max16_val max32_val word_sle_eq)
  have c1: "CalculateDelta 7 7 100 = (0, '''')"
    using CalculateDelta_cases [where newCount = 7 and lastCount = 7 and jumpThreshold = 100]
    by simp
  have c2: "\<exists>mx \<in> {max16, max32}.
          (65530::int64) \<le>s mx
        \<and> 0 <s (mx - 65530) + 5 + 1
        \<and> (mx - 65530) + 5 + 1 \<le>s 1000
        \<and> CalculateDelta 65530 5 1000 = ((mx - 65530) + 5 + 1, '''')"
    using CalculateDelta_cases [where newCount = 5 and lastCount = 65530 and jumpThreshold = 1000]
      ev(1) e16 by blast
  have c3: "CalculateDelta 65530 5 5 = (5, ''reset'')"
    using CalculateDelta_cases [where newCount = 5 and lastCount = 65530 and jumpThreshold = 5]
      ev(1) n16 n32 by blast
  have c4: "CalculateDelta 100 50000 1000 = (50000 - 100, ''jump'')"
    using CalculateDelta_cases [where newCount = 50000 and lastCount = 100 and jumpThreshold = 1000]
      ev(2,3,4) by simp
  have c5: "CalculateDelta 100 50000 49900 = (49900, '''')"
    using CalculateDelta_cases [where newCount = 50000 and lastCount = 100 and jumpThreshold = 49900]
      ev(2,3,5) by simp
  have c6: "CalculateDelta (- 1) 9223372036854775807 1000 = (9223372036854775807 - (- 1), '''')"
    using CalculateDelta_cases [where newCount = 9223372036854775807 and lastCount = "- 1"
        and jumpThreshold = 1000] ov by simp
  from c1 c2 c3 c4 c5 c6 ev ov show ?thesis by blast
qed

text \<open>
  C1 as stated fails where \<open>new - last\<close> does not fit an \<open>int64\<close>.  With
  \<open>last = -1\<close>, \<open>new = 2^63 - 1\<close> and \<open>jump = 1000\<close> the difference is \<open>2^63\<close>,
  which exceeds the threshold, so the statement asks for \<open>(2^63, "jump")\<close>; Go's
  subtraction wraps to \<open>-2^63\<close>, which does not exceed the threshold, and the result
  is \<open>(-2^63, "")\<close>.
\<close>

theorem CalculateDelta_overflow:
  "(- 1 :: int64) <s 9223372036854775807
   \<and> sint (9223372036854775807 :: int64) - sint (- 1 :: int64) = 9223372036854775808
   \<and> sint (1000 :: int64) < sint (9223372036854775807 :: int64) - sint (- 1 :: int64)
   \<and> CalculateDelta (- 1) 9223372036854775807 1000 = (- 9223372036854775808, '''')
   \<and> sint (fst (CalculateDelta (- 1) 9223372036854775807 1000)) = - 9223372036854775808
   \<and> snd (CalculateDelta (- 1) 9223372036854775807 1000) \<noteq> ''jump''"
  by (simp add: CalculateDelta_def word_sless_alt)

section \<open>Outbox store (shingo-edge/store/outbox.go)\<close>

text \<open>
  Timestamps.  The store keeps \<open>created_at\<close> and \<open>sent_at\<close> as text of the form
  \<open>YYYY-MM-DD HH:MM:SS\<close> and compares them with the cutoff as text; on such text the
  order is the order of the instants, so a timestamp is a point of a linear order:
  an integer count of seconds.  A \<open>nil\<close> pointer or SQL \<open>NULL\<close> is \<open>None\<close>.
\<close>

type_synonym timestamp = int

type_synonym bytes = "8 word list"

text \<open>
  Modelled from the spec: the \<open>outbox\<close> table (its DDL is not under src/).  Columns
  \<open>id INTEGER PK AUTOINCREMENT, topic TEXT, payload BLOB, msg_type TEXT,
  retries INT DEFAULT 0, created_at TIMESTAMP DEFAULT now, sent_at TIMESTAMP NULL\<close>.
  \<open>outbox_seq\<close> is AUTOINCREMENT's counter, the largest id ever given out: an id is
  never used twice, also after its row is deleted.
\<close>

record outbox_row =
  row_id :: int
  row_topic :: string
  row_payload :: bytes
  row_msg_type :: string
  row_retries :: int
  row_created_at :: timestamp
  row_sent_at :: "timestamp option"

record outbox_db =
  outbox_rows :: "outbox_row list"
  outbox_seq :: int

text \<open>The Go struct \<open>store.OutboxMessage\<close> of the edge: it has no topic.\<close>

record OutboxMessage =
  ID :: int
  Payload :: bytes
  MsgType :: string
  Retries :: int
  CreatedAt :: timestamp
  SentAt :: "timestamp option"

definition MaxOutboxRetries :: int where
  "MaxOutboxRetries = 10"

text \<open>
  The store's functions are the effect of their SQL statement when the driver reports
  no error.  Their callers' models take a driver error as an input of their own and
  then leave the table as it was.
\<close>

text \<open>
  \<open>INSERT INTO outbox (topic, payload, msg_type) VALUES ('orders', ?, ?)\<close>; the
  result is \<open>LastInsertId\<close>.  The clock gives the default of \<open>created_at\<close>.
\<close>

definition next_outbox_id :: "outbox_db \<Rightarrow> int" where
  "next_outbox_id db = fold max (map row_id (outbox_rows db)) (outbox_seq db) + 1"

definition EnqueueOutbox :: "timestamp \<Rightarrow> outbox_db \<Rightarrow> bytes \<Rightarrow> string \<Rightarrow> outbox_db \<times> int" where
  "EnqueueOutbox now db payload msgType =
     (let i = next_outbox_id db in
      (\<lparr>outbox_rows = outbox_rows db @
          [\<lparr>row_id = i, row_topic = ''orders'', row_payload = payload, row_msg_type = msgType,
            row_retries = 0, row_created_at = now, row_sent_at = None\<rparr>],
        outbox_seq = i\<rparr>, i))"

text \<open>
  SQL's \<open>LIMIT ?\<close> with an integer parameter (\<open>limit int\<close> in Go).  The edge store
  is SQLite (\<open>datetime('now','localtime')\<close>), where a negative limit means no upper
  bound on the number of rows.
\<close>

definition sql_limit :: "int \<Rightarrow> 'a list \<Rightarrow> 'a list" where
  "sql_limit n xs = (if n < 0 then xs else take (nat n) xs)"

text \<open>\<open>rows.Scan(&m.ID, &m.Payload, &m.MsgType, &m.Retries, &createdAt)\<close>: \<open>SentAt\<close> stays nil.\<close>

definition scan_row :: "outbox_row \<Rightarrow> OutboxMessage" where
  "scan_row r =
     \<lparr>ID = row_id r, Payload = row_payload r, MsgType = row_msg_type r,
      Retries = row_retries r, CreatedAt = row_created_at r, SentAt = None\<rparr>"

definition is_pending :: "outbox_row \<Rightarrow> bool" where
  "is_pending r \<longleftrightarrow> row_sent_at r = None \<and> row_retries r < MaxOutboxRetries"

text \<open>
  \<open>SELECT id, payload, msg_type, retries, created_at FROM outbox
   WHERE sent_at IS NULL AND retries < ? ORDER BY id LIMIT ?\<close>
\<close>

definition ListPendingOutbox :: "outbox_db \<Rightarrow> int \<Rightarrow> OutboxMessage list" where
  "ListPendingOutbox db limit =
     map scan_row (sql_limit limit (sort_key row_id (filter is_pending (outbox_rows db))))"

text \<open>\<open>UPDATE outbox SET sent_at = datetime('now','localtime') WHERE id = ?\<close>\<close>

definition AckOutbox :: "timestamp \<Rightarrow> outbox_db \<Rightarrow> int \<Rightarrow> outbox_db" where
  "AckOutbox now db i =
     db\<lparr>outbox_rows := map (\<lambda>r. if row_id r = i then r\<lparr>row_sent_at := Some now\<rparr> else r)
                            (outbox_rows db)\<rparr>"

text \<open>\<open>UPDATE outbox SET retries = retries + 1 WHERE id = ?\<close>\<close>

definition IncrementOutboxRetries :: "outbox_db \<Rightarrow> int \<Rightarrow> outbox_db" where
  "IncrementOutboxRetries db i =
     db\<lparr>outbox_rows := map (\<lambda>r. if row_id r = i then r\<lparr>row_retries := row_retries r + 1\<rparr> else r)
                            (outbox_rows db)\<rparr>"

text \<open>
  \<open>DELETE FROM outbox WHERE (sent_at IS NOT NULL AND sent_at < ?)
     OR (retries >= ? AND created_at < ?)\<close> with \<open>cutoff = now - olderThan\<close>; the
  result is \<open>RowsAffected\<close>.
\<close>

definition purge_matches :: "timestamp \<Rightarrow> outbox_row \<Rightarrow> bool" where
  "purge_matches cutoff r \<longleftrightarrow>
     (case row_sent_at r of None \<Rightarrow> False | Some t \<Rightarrow> t < cutoff)
     \<or> (row_retries r \<ge> MaxOutboxRetries \<and> row_created_at r < cutoff)"

definition PurgeOldOutbox :: "timestamp \<Rightarrow> outbox_db \<Rightarrow> int \<Rightarrow> outbox_db \<times> int" where
  "PurgeOldOutbox now db olderThan =
     (let cutoff = now - olderThan in
      (db\<lparr>outbox_rows := filter (\<lambda>r. \<not> purge_matches cutoff r) (outbox_rows db)\<rparr>,
       int (length (filter (purge_matches cutoff) (outbox_rows db)))))"

text \<open>
  The calls a store receives over time, for statements about every later state.
\<close>

datatype store_op =
    OpEnqueue timestamp bytes string
  | OpAck timestamp int
  | OpIncrementRetries int
  | OpPurge timestamp int

fun store_step :: "outbox_db \<Rightarrow> store_op \<Rightarrow> outbox_db" where
  "store_step db (OpEnqueue now payload msgType) = fst (EnqueueOutbox now db payload msgType)"
| "store_step db (OpAck now i) = AckOutbox now db i"
| "store_step db (OpIncrementRetries i) = IncrementOutboxRetries db i"
| "store_step db (OpPurge now olderThan) = fst (PurgeOldOutbox now db olderThan)"

definition store_run :: "outbox_db \<Rightarrow> store_op list \<Rightarrow> outbox_db" where
  "store_run db ops = foldl store_step db ops"

text \<open>
  AUTOINCREMENT's invariant: no row has an id beyond the counter.  It holds of the
  empty table and every call of the store keeps it.
\<close>

definition outbox_wf :: "outbox_db \<Rightarrow> bool" where
  "outbox_wf db \<longleftrightarrow> list_all (\<lambda>r. row_id r \<le> outbox_seq db) (outbox_rows db)"

text \<open>
  An id that is settled: it has been given out, and every row that carries it is acked
  or dead-lettered.
\<close>

definition settled :: "outbox_db \<Rightarrow> int \<Rightarrow> bool" where
  "settled db i \<longleftrightarrow>
     outbox_seq db \<ge> i \<and> list_all (\<lambda>r. row_id r = i \<longrightarrow> \<not> is_pending r) (outbox_rows db)"

text \<open>Example tables for the scenarios below.\<close>

definition example_row :: "int \<Rightarrow> int \<Rightarrow> timestamp \<Rightarrow> timestamp option \<Rightarrow> outbox_row" where
  "example_row i n created sent =
     \<lparr>row_id = i, row_topic = ''orders'', row_payload = [], row_msg_type = ''order.request'',
      row_retries = n, row_created_at = created, row_sent_at = sent\<rparr>"

definition example_outbox :: outbox_db where
  "example_outbox =
     \<lparr>outbox_rows = [example_row 3 0 30 None, example_row 1 0 10 None,
                     example_row 2 10 20 None, example_row 4 2 40 (Some 50)],
      outbox_seq = 4\<rparr>"

definition purge_example :: outbox_db where
  "purge_example =
     \<lparr>outbox_rows = [example_row 1 0 10 (Some 20), example_row 2 10 10 None,
                     example_row 3 9 10 None, example_row 4 0 10 (Some 95)],
      outbox_seq = 4\<rparr>"

subsection \<open>Properties of the store\<close>

lemma ID_scan_row: "ID (scan_row r) = row_id r"
  by (simp add: scan_row_def)

lemma set_sql_limit: "set (sql_limit n xs) \<subseteq> set xs"
  by (auto simp: sql_limit_def dest: in_set_takeD)

lemma length_sql_limit: "0 \<le> n \<Longrightarrow> int (length (sql_limit n xs)) \<le> n"
  by (simp add: sql_limit_def)

lemma sorted_sql_limit:
  assumes "sorted (map f xs)"
  shows "sorted (map f (sql_limit n xs))"
proof (cases "n < 0")
  case True
  then show ?thesis using assms by (simp add: sql_limit_def)
next
  case False
  have "sorted (take (nat n) (map f xs))" using assms by (rule sorted_wrt_take)
  then show ?thesis using False by (simp add: sql_limit_def take_map)
qed

lemma ListPendingOutbox_rows:
  assumes "m \<in> set (ListPendingOutbox db limit)"
  shows "\<exists>r \<in> set (outbox_rows db). m = scan_row r \<and> is_pending r"
proof -
  from assms obtain r where r: "r \<in> set (sql_limit limit (sort_key row_id (filter is_pending (outbox_rows db))))"
    and m: "m = scan_row r"
    by (auto simp: ListPendingOutbox_def)
  from set_sql_limit r have "r \<in> set (sort_key row_id (filter is_pending (outbox_rows db)))"
    by (rule subsetD)
  then have "r \<in> set (outbox_rows db)" "is_pending r" by simp_all
  with m show ?thesis by blast
qed

lemma ListPendingOutbox_sorted: "sorted (map ID (ListPendingOutbox db limit))"
proof -
  have "map ID (ListPendingOutbox db limit) =
        map row_id (sql_limit limit (sort_key row_id (filter is_pending (outbox_rows db))))"
    by (simp add: ListPendingOutbox_def ID_scan_row comp_def)
  then show ?thesis by (simp add: sorted_sql_limit)
qed

lemma ListPendingOutbox_length:
  "0 \<le> limit \<Longrightarrow> int (length (ListPendingOutbox db limit)) \<le> limit"
  by (simp add: ListPendingOutbox_def length_sql_limit)

lemma fold_max_ge: "(a::int) \<le> fold max xs a"
proof (induction xs arbitrary: a)
  case Nil
  show ?case by simp
next
  case (Cons x xs)
  have "a \<le> max x a" by simp
  also have "\<dots> \<le> fold max xs (max x a)" by (rule Cons.IH)
  finally show ?case by simp
qed

lemma next_outbox_id_gt: "outbox_seq db < next_outbox_id db"
  using fold_max_ge [of "outbox_seq db" "map row_id (outbox_rows db)"]
  by (simp add: next_outbox_id_def)

lemma settled_iff:
  "settled db i \<longleftrightarrow>
     i \<le> outbox_seq db \<and> (\<forall>r \<in> set (outbox_rows db). row_id r = i \<longrightarrow> \<not> is_pending r)"
  by (simp add: settled_def list_all_iff)

lemma outbox_wf_iff:
  "outbox_wf db \<longleftrightarrow> (\<forall>r \<in> set (outbox_rows db). row_id r \<le> outbox_seq db)"
  by (simp add: outbox_wf_def list_all_iff)

lemma settled_not_listed:
  assumes "settled db i"
  shows "i \<notin> ID ` set (ListPendingOutbox db limit)"
proof
  assume "i \<in> ID ` set (ListPendingOutbox db limit)"
  then obtain m where m: "m \<in> set (ListPendingOutbox db limit)" and i: "ID m = i" by auto
  from ListPendingOutbox_rows [OF m] obtain r
    where r: "r \<in> set (outbox_rows db)" "m = scan_row r" "is_pending r" by blast
  from i r(2) have "row_id r = i" by (simp add: ID_scan_row)
  with assms r(1) have "\<not> is_pending r" by (simp add: settled_iff)
  with r(3) show False by simp
qed

lemma rows_Enqueue:
  "outbox_rows (fst (EnqueueOutbox now db payload msgType)) =
     outbox_rows db @
       [\<lparr>row_id = next_outbox_id db, row_topic = ''orders'', row_payload = payload,
         row_msg_type = msgType, row_retries = 0, row_created_at = now, row_sent_at = None\<rparr>]"
  by (simp add: EnqueueOutbox_def Let_def)

lemma seq_Enqueue: "outbox_seq (fst (EnqueueOutbox now db payload msgType)) = next_outbox_id db"
  by (simp add: EnqueueOutbox_def Let_def)

lemma rows_Ack:
  "outbox_rows (AckOutbox now db j) =
     map (\<lambda>r. if row_id r = j then r\<lparr>row_sent_at := Some now\<rparr> else r) (outbox_rows db)"
  by (simp add: AckOutbox_def)

lemma seq_Ack: "outbox_seq (AckOutbox now db j) = outbox_seq db"
  by (simp add: AckOutbox_def)

lemma rows_Increment:
  "outbox_rows (IncrementOutboxRetries db j) =
     map (\<lambda>r. if row_id r = j then r\<lparr>row_retries := row_retries r + 1\<rparr> else r) (outbox_rows db)"
  by (simp add: IncrementOutboxRetries_def)

lemma seq_Increment: "outbox_seq (IncrementOutboxRetries db j) = outbox_seq db"
  by (simp add: IncrementOutboxRetries_def)

lemma rows_Purge:
  "outbox_rows (fst (PurgeOldOutbox now db olderThan)) =
     filter (\<lambda>r. \<not> purge_matches (now - olderThan) r) (outbox_rows db)"
  by (simp add: PurgeOldOutbox_def Let_def)

lemma seq_Purge: "outbox_seq (fst (PurgeOldOutbox now db olderThan)) = outbox_seq db"
  by (simp add: PurgeOldOutbox_def Let_def)

lemma not_pending_sent: "\<not> is_pending (r\<lparr>row_sent_at := Some t\<rparr>)"
  by (simp add: is_pending_def)

lemma not_pending_retry: "\<not> is_pending r \<Longrightarrow> \<not> is_pending (r\<lparr>row_retries := row_retries r + 1\<rparr>)"
  by (auto simp: is_pending_def)

lemma ball_map_if:
  "(\<forall>y \<in> set (map (\<lambda>r. if P r then f r else r) xs). Q y) \<longleftrightarrow>
   (\<forall>r \<in> set xs. (P r \<longrightarrow> Q (f r)) \<and> (\<not> P r \<longrightarrow> Q r))"
  by (induction xs) simp_all

lemma settled_step:
  assumes s: "settled db i"
  shows "settled (store_step db op) i"
proof (cases op)
  case (OpEnqueue now payload msgType)
  have lt: "i < next_outbox_id db"
    using s next_outbox_id_gt [of db] by (simp add: settled_iff)
  show ?thesis
    unfolding OpEnqueue store_step.simps settled_iff rows_Enqueue seq_Enqueue
    using s lt by (simp add: settled_iff)
next
  case (OpAck now j)
  show ?thesis
    unfolding OpAck store_step.simps settled_iff rows_Ack seq_Ack ball_map_if
    using s by (simp add: settled_iff not_pending_sent)
next
  case (OpIncrementRetries j)
  show ?thesis
    unfolding OpIncrementRetries store_step.simps settled_iff rows_Increment seq_Increment ball_map_if
    using s by (simp add: settled_iff not_pending_retry)
next
  case (OpPurge now olderThan)
  show ?thesis
    unfolding OpPurge store_step.simps settled_iff rows_Purge seq_Purge
    using s by (simp add: settled_iff)
qed

lemma settled_run: "settled db i \<Longrightarrow> settled (store_run db ops) i"
  unfolding store_run_def
  by (induction ops arbitrary: db) (simp_all add: settled_step)

lemma wf_step:
  assumes w: "outbox_wf db"
  shows "outbox_wf (store_step db op)"
proof (cases op)
  case (OpEnqueue now payload msgType)
  have "\<forall>r \<in> set (outbox_rows db). row_id r \<le> next_outbox_id db"
    using w next_outbox_id_gt [of db] by (fastforce simp: outbox_wf_iff)
  then show ?thesis
    unfolding OpEnqueue store_step.simps outbox_wf_iff rows_Enqueue seq_Enqueue
    by simp
next
  case (OpAck now j)
  show ?thesis
    unfolding OpAck store_step.simps outbox_wf_iff rows_Ack seq_Ack ball_map_if
    using w by (auto simp: outbox_wf_iff)
next
  case (OpIncrementRetries j)
  show ?thesis
    unfolding OpIncrementRetries store_step.simps outbox_wf_iff rows_Increment seq_Increment ball_map_if
    using w by (auto simp: outbox_wf_iff)
next
  case (OpPurge now olderThan)
  show ?thesis
    unfolding OpPurge store_step.simps outbox_wf_iff rows_Purge seq_Purge
    using w by (simp add: outbox_wf_iff)
qed

lemma wf_run: "outbox_wf db \<Longrightarrow> outbox_wf (store_run db ops)"
  unfolding store_run_def
  by (induction ops arbitrary: db) (simp_all add: wf_step)

lemma settled_Ack:
  assumes w: "outbox_wf db" and ex: "i \<in> row_id ` set (outbox_rows db)"
  shows "settled (AckOutbox now db i) i"
proof -
  from w ex have "i \<le> outbox_seq db" by (auto simp: outbox_wf_iff)
  then show ?thesis
    unfolding settled_iff rows_Ack seq_Ack ball_map_if
    by (simp add: not_pending_sent)
qed

lemma rows_increments:
  "outbox_rows (((\<lambda>d. IncrementOutboxRetries d i) ^^ n) db) =
     map (\<lambda>r. if row_id r = i then r\<lparr>row_retries := row_retries r + int n\<rparr> else r) (outbox_rows db)"
proof (induction n)
  case 0
  show ?case by (simp add: map_idI)
next
  case (Suc n)
  then show ?case
    by (simp add: rows_Increment comp_def)
qed

lemma seq_increments:
  "outbox_seq (((\<lambda>d. IncrementOutboxRetries d i) ^^ n) db) = outbox_seq db"
  by (induction n) (simp_all add: seq_Increment)

lemma settled_increments:
  assumes w: "outbox_wf db" and ex: "i \<in> row_id ` set (outbox_rows db)"
    and n: "\<forall>r \<in> set (outbox_rows db). row_id r = i \<longrightarrow> MaxOutboxRetries \<le> row_retries r + int n"
  shows "settled (((\<lambda>d. IncrementOutboxRetries d i) ^^ n) db) i"
proof -
  from w ex have "i \<le> outbox_seq db" by (auto simp: outbox_wf_iff)
  then show ?thesis
    unfolding settled_iff rows_increments seq_increments ball_map_if
    using n by (auto simp: is_pending_def)
qed

lemma example_pending:
  "filter is_pending (outbox_rows example_outbox) = [example_row 3 0 30 None, example_row 1 0 10 None]"
  by (simp add: example_outbox_def example_row_def is_pending_def MaxOutboxRetries_def)

lemma example_sorted:
  "sort_key row_id [example_row 3 0 30 None, example_row 1 0 10 None]
     = [example_row 1 0 10 None, example_row 3 0 30 None]"
  by (simp add: example_row_def)

lemma example_list_all:
  "ListPendingOutbox example_outbox (-1) = [scan_row (example_row 1 0 10 None), scan_row (example_row 3 0 30 None)]"
  by (simp add: ListPendingOutbox_def example_pending sql_limit_def) (simp add: example_row_def)

lemma example_list_one:
  "ListPendingOutbox example_outbox 1 = [scan_row (example_row 1 0 10 None)]"
  by (simp add: ListPendingOutbox_def example_pending sql_limit_def) (simp add: example_row_def)

lemma example_wf: "outbox_wf example_outbox"
  by (simp add: outbox_wf_def example_outbox_def example_row_def)

lemma example_ids: "row_id ` set (outbox_rows example_outbox) = {1, 2, 3, 4}"
  by (auto simp: example_outbox_def example_row_def)

lemma purge_example_rows:
  "outbox_rows (fst (PurgeOldOutbox 100 purge_example 10)) =
     [example_row 3 9 10 None, example_row 4 0 10 (Some 95)]"
  by (simp add: rows_Purge purge_example_def purge_matches_def example_row_def MaxOutboxRetries_def)

text \<open>
  C3, as amended.  For every outbox state and every limit, \<open>ListPendingOutbox\<close>
  returns only rows with \<open>sent_at = NULL\<close> and \<open>retries < MaxOutboxRetries = 10\<close>,
  in ascending order of id, and for a limit that is not negative at most \<open>limit\<close>
  of them.  Once \<open>AckOutbox id\<close> has run on a row of the table, or
  \<open>IncrementOutboxRetries id\<close> has run \<open>n\<close> times with the row's retries plus
  \<open>n\<close> at 10 or more, no later listing returns that id, whatever the store is asked
  to do in between (enqueue, ack, increment, purge) and whatever the limit.  The table
  is any state of the store: one that satisfies AUTOINCREMENT's invariant, which holds
  of the empty table and is kept by every call.
\<close>

theorem ListPendingOutbox_contract:
  "(\<forall>m \<in> set (ListPendingOutbox db limit).
       \<exists>r \<in> set (outbox_rows db). m = scan_row r \<and> row_sent_at r = None \<and> row_retries r < 10)
   \<and> (0 \<le> limit \<longrightarrow> int (length (ListPendingOutbox db limit)) \<le> limit)
   \<and> sorted (map ID (ListPendingOutbox db limit))
   \<and> (outbox_wf db \<and> i \<in> row_id ` set (outbox_rows db) \<longrightarrow>
        (\<forall>ops limit'. i \<notin> ID ` set (ListPendingOutbox (store_run (AckOutbox now db i) ops) limit')))
   \<and> (outbox_wf db \<and> i \<in> row_id ` set (outbox_rows db)
        \<and> (\<forall>r \<in> set (outbox_rows db). row_id r = i \<longrightarrow> 10 \<le> row_retries r + int n) \<longrightarrow>
        (\<forall>ops limit'. i \<notin> ID ` set (ListPendingOutbox
             (store_run (((\<lambda>d. IncrementOutboxRetries d i) ^^ n) db) ops) limit')))
   \<and> outbox_wf \<lparr>outbox_rows = [], outbox_seq = 0\<rparr>
   \<and> (outbox_wf db \<longrightarrow> outbox_wf (store_run db later))"
proof (intro conjI impI allI ballI)
  fix m assume "m \<in> set (ListPendingOutbox db limit)"
  from ListPendingOutbox_rows [OF this]
  show "\<exists>r \<in> set (outbox_rows db). m = scan_row r \<and> row_sent_at r = None \<and> row_retries r < 10"
    by (simp add: is_pending_def MaxOutboxRetries_def)
next
  assume "0 \<le> limit"
  then show "int (length (ListPendingOutbox db limit)) \<le> limit"
    by (rule ListPendingOutbox_length)
next
  show "sorted (map ID (ListPendingOutbox db limit))"
    by (rule ListPendingOutbox_sorted)
next
  fix ops limit'
  assume "outbox_wf db \<and> i \<in> row_id ` set (outbox_rows db)"
  then have "settled (AckOutbox now db i) i" by (simp add: settled_Ack)
  then have "settled (store_run (AckOutbox now db i) ops) i" by (rule settled_run)
  then show "i \<notin> ID ` set (ListPendingOutbox (store_run (AckOutbox now db i) ops) limit')"
    by (rule settled_not_listed)
next
  fix ops limit'
  assume a: "outbox_wf db \<and> i \<in> row_id ` set (outbox_rows db)
        \<and> (\<forall>r \<in> set (outbox_rows db). row_id r = i \<longrightarrow> 10 \<le> row_retries r + int n)"
  then have "settled (((\<lambda>d. IncrementOutboxRetries d i) ^^ n) db) i"
    by (intro settled_increments) (simp_all add: MaxOutboxRetries_def)
  then have "settled (store_run (((\<lambda>d. IncrementOutboxRetries d i) ^^ n) db) ops) i"
    by (rule settled_run)
  then show "i \<notin> ID ` set (ListPendingOutbox
             (store_run (((\<lambda>d. IncrementOutboxRetries d i) ^^ n) db) ops) limit')"
    by (rule settled_not_listed)
next
  show "outbox_wf \<lparr>outbox_rows = [], outbox_seq = 0\<rparr>"
    by (simp add: outbox_wf_def)
next
  assume "outbox_wf db"
  then show "outbox_wf (store_run db later)" by (rule wf_run)
qed

theorem ListPendingOutbox_contract_witness:
  "(0::int) \<le> 1
   \<and> ListPendingOutbox example_outbox 1 = [scan_row (example_row 1 0 10 None)]
   \<and> int (length (ListPendingOutbox example_outbox 1)) \<le> 1
   \<and> (\<exists>r \<in> set (outbox_rows example_outbox).
         scan_row (example_row 1 0 10 None) = scan_row r \<and> row_sent_at r = None \<and> row_retries r < 10)
   \<and> sorted (map ID (ListPendingOutbox example_outbox 1))
   \<and> outbox_wf example_outbox
   \<and> 1 \<in> row_id ` set (outbox_rows example_outbox)
   \<and> 1 \<notin> ID ` set (ListPendingOutbox
         (store_run (AckOutbox 60 example_outbox 1)
            [OpEnqueue 70 [] ''order.cancel'', OpIncrementRetries 1, OpPurge 100 5]) (- 1))
   \<and> 3 \<in> row_id ` set (outbox_rows example_outbox)
   \<and> 3 \<notin> ID ` set (ListPendingOutbox
         (store_run (((\<lambda>d. IncrementOutboxRetries d 3) ^^ 10) example_outbox)
            [OpEnqueue 70 [] ''order.cancel'']) 50)"
proof -
  note a = ListPendingOutbox_contract [where db = example_outbox and limit = 1 and i = 1
      and now = 60 and n = 0]
  note b = ListPendingOutbox_contract [where db = example_outbox and limit = 1 and i = 3
      and now = 60 and n = 10]
  have m: "scan_row (example_row 1 0 10 None) \<in> set (ListPendingOutbox example_outbox 1)"
    by (simp add: example_list_one)
  have h3: "\<forall>r \<in> set (outbox_rows example_outbox). row_id r = 3 \<longrightarrow> 10 \<le> row_retries r + int 10"
    by (simp add: example_outbox_def example_row_def)
  have i1: "(1::int) \<in> row_id ` set (outbox_rows example_outbox)"
    and i3: "(3::int) \<in> row_id ` set (outbox_rows example_outbox)"
    by (simp_all add: example_ids)
  from a m have c1: "\<exists>r \<in> set (outbox_rows example_outbox).
         scan_row (example_row 1 0 10 None) = scan_row r \<and> row_sent_at r = None \<and> row_retries r < 10"
    by blast
  from a have c2: "int (length (ListPendingOutbox example_outbox 1)) \<le> 1" by simp
  from a have c3: "sorted (map ID (ListPendingOutbox example_outbox 1))" by simp
  from a example_wf i1 have c4: "1 \<notin> ID ` set (ListPendingOutbox
         (store_run (AckOutbox 60 example_outbox 1)
            [OpEnqueue 70 [] ''order.cancel'', OpIncrementRetries 1, OpPurge 100 5]) (- 1))"
    by blast
  from b example_wf i3 h3 have c5: "3 \<notin> ID ` set (ListPendingOutbox
         (store_run (((\<lambda>d. IncrementOutboxRetries d 3) ^^ 10) example_outbox)
            [OpEnqueue 70 [] ''order.cancel'']) 50)"
    by blast
  from c1 c2 c3 c4 c5 example_wf i1 i3 example_list_one show ?thesis by simp
qed

text \<open>
  C3 as stated, "at most \<open>limit\<close> of them" for every limit, fails for a negative
  limit: SQLite reads \<open>LIMIT -1\<close> as no limit, and the listing returns both pending
  rows of the example.
\<close>

theorem ListPendingOutbox_negative_limit:
  "length (ListPendingOutbox example_outbox (- 1)) = 2
   \<and> \<not> int (length (ListPendingOutbox example_outbox (- 1))) \<le> - 1"
  by (simp add: example_list_all)

text \<open>
  C9.  \<open>PurgeOldOutbox\<close> deletes only rows that are acked with \<open>sent_at\<close> before
  the cutoff, or dead-lettered (\<open>retries \<ge> 10\<close>) with \<open>created_at\<close> before the
  cutoff.  A pending row (\<open>sent_at = NULL\<close> and \<open>retries < 10\<close>) is never deleted,
  whatever its age.  The rows that stay keep their order, and the result counts the
  deleted rows.
\<close>

theorem PurgeOldOutbox_frame:
  "(\<forall>r \<in> set (outbox_rows db).
       r \<notin> set (outbox_rows (fst (PurgeOldOutbox now db olderThan))) \<longrightarrow>
         (\<exists>t. row_sent_at r = Some t \<and> t < now - olderThan)
         \<or> (10 \<le> row_retries r \<and> row_created_at r < now - olderThan))
   \<and> (\<forall>r \<in> set (outbox_rows db).
         row_sent_at r = None \<and> row_retries r < 10 \<longrightarrow>
           r \<in> set (outbox_rows (fst (PurgeOldOutbox now db olderThan))))
   \<and> outbox_rows (fst (PurgeOldOutbox now db olderThan)) =
       filter (\<lambda>r. r \<in> set (outbox_rows (fst (PurgeOldOutbox now db olderThan)))) (outbox_rows db)
   \<and> snd (PurgeOldOutbox now db olderThan) =
       int (length (outbox_rows db)) - int (length (outbox_rows (fst (PurgeOldOutbox now db olderThan))))"
proof (intro conjI ballI impI)
  fix r
  assume "r \<in> set (outbox_rows db)"
    and "r \<notin> set (outbox_rows (fst (PurgeOldOutbox now db olderThan)))"
  then have "purge_matches (now - olderThan) r" by (simp add: rows_Purge)
  then show "(\<exists>t. row_sent_at r = Some t \<and> t < now - olderThan)
         \<or> (10 \<le> row_retries r \<and> row_created_at r < now - olderThan)"
    by (auto simp: purge_matches_def MaxOutboxRetries_def split: option.splits)
next
  fix r
  assume r: "r \<in> set (outbox_rows db)" and p: "row_sent_at r = None \<and> row_retries r < 10"
  from p have "\<not> purge_matches (now - olderThan) r"
    by (simp add: purge_matches_def MaxOutboxRetries_def)
  with r show "r \<in> set (outbox_rows (fst (PurgeOldOutbox now db olderThan)))"
    by (simp add: rows_Purge)
next
  show "outbox_rows (fst (PurgeOldOutbox now db olderThan)) =
       filter (\<lambda>r. r \<in> set (outbox_rows (fst (PurgeOldOutbox now db olderThan)))) (outbox_rows db)"
    unfolding rows_Purge by (rule filter_cong) simp_all
next
  have "length (outbox_rows db) =
        length (filter (purge_matches (now - olderThan)) (outbox_rows db))
        + length (filter (\<lambda>r. \<not> purge_matches (now - olderThan) r) (outbox_rows db))"
    by (rule sum_length_filter_compl [symmetric])
  then show "snd (PurgeOldOutbox now db olderThan) =
       int (length (outbox_rows db)) - int (length (outbox_rows (fst (PurgeOldOutbox now db olderThan))))"
    unfolding rows_Purge by (simp add: PurgeOldOutbox_def Let_def)
qed

theorem PurgeOldOutbox_frame_witness:
  "example_row 3 9 10 None \<in> set (outbox_rows purge_example)
   \<and> row_sent_at (example_row 3 9 10 None) = None \<and> row_retries (example_row 3 9 10 None) < 10
   \<and> example_row 3 9 10 None \<in> set (outbox_rows (fst (PurgeOldOutbox 100 purge_example 10)))
   \<and> example_row 2 10 10 None \<in> set (outbox_rows purge_example)
   \<and> example_row 2 10 10 None \<notin> set (outbox_rows (fst (PurgeOldOutbox 100 purge_example 10)))
   \<and> ((\<exists>t. row_sent_at (example_row 2 10 10 None) = Some t \<and> t < 100 - 10)
       \<or> (10 \<le> row_retries (example_row 2 10 10 None)
           \<and> row_created_at (example_row 2 10 10 None) < 100 - 10))
   \<and> snd (PurgeOldOutbox 100 purge_example 10) = 2"
proof -
  note a = PurgeOldOutbox_frame [where db = purge_example and now = 100 and olderThan = 10]
  have r3: "example_row 3 9 10 None \<in> set (outbox_rows purge_example)"
    and r2: "example_row 2 10 10 None \<in> set (outbox_rows purge_example)"
    by (simp_all add: purge_example_def)
  have p3: "row_sent_at (example_row 3 9 10 None) = None \<and> row_retries (example_row 3 9 10 None) < 10"
    by (simp add: example_row_def)
  have gone: "example_row 2 10 10 None \<notin> set (outbox_rows (fst (PurgeOldOutbox 100 purge_example 10)))"
    by (simp add: purge_example_rows) (simp add: example_row_def)
  from a r3 p3 have c1: "example_row 3 9 10 None \<in> set (outbox_rows (fst (PurgeOldOutbox 100 purge_example 10)))"
    by blast
  from a r2 gone have c2: "(\<exists>t. row_sent_at (example_row 2 10 10 None) = Some t \<and> t < 100 - 10)
       \<or> (10 \<le> row_retries (example_row 2 10 10 None)
           \<and> row_created_at (example_row 2 10 10 None) < 100 - 10)"
    by blast
  from a have c3: "snd (PurgeOldOutbox 100 purge_example 10) = 2"
    by (simp add: purge_example_rows) (simp add: purge_example_def)
  from r3 r2 p3 gone c1 c2 c3 show ?thesis by blast
qed

section \<open>Outbox drainers (shingo-edge/messaging/outbox.go, shingo-core/messaging)\<close>

text \<open>
  The calls a drainer makes on the bus client and on the store, in the order it makes
  them.  A drainer's model returns this list beside the new state.
\<close>

datatype call =
    CallListPendingOutbox int
  | CallPublish string bytes
  | CallAckOutbox int
  | CallIncrementOutboxRetries int
  | CallPurgeOldOutbox int

text \<open>
  What the world answers during one tick: \<open>client.IsConnected()\<close>, whether
  \<open>ListPendingOutbox\<close> returns an error, whether \<open>Publish\<close> of the \<open>k\<close>-th message
  of the batch returns an error, whether the store's update for the \<open>k\<close>-th message
  fails (the drainers ignore that error; the row then stays as it was), whether the
  purge fails, and the clock.
\<close>

record tick_env =
  IsConnected :: bool
  list_err :: bool
  publish_err :: "nat \<Rightarrow> bool"
  exec_err :: "nat \<Rightarrow> bool"
  purge_err :: bool
  clock :: timestamp

record MessagingConfig =
  OrdersTopic :: string
  OutboxDrainInterval :: int

text \<open>
  The edge drainer's loop \<open>for _, msg := range msgs\<close>.  Every message goes to
  \<open>d.cfg.OrdersTopic\<close>; \<open>continue\<close> after a failed publish moves on to the next
  message.  Log lines are not part of the model.
\<close>

fun edge_drain_loop ::
  "tick_env \<Rightarrow> MessagingConfig \<Rightarrow> nat \<Rightarrow> OutboxMessage list \<Rightarrow> outbox_db \<times> call list
     \<Rightarrow> outbox_db \<times> call list" where
  "edge_drain_loop e cfg k [] st = st"
| "edge_drain_loop e cfg k (msg # msgs) (db, tr) =
     (let topic = OrdersTopic cfg in
      if publish_err e k then
        edge_drain_loop e cfg (Suc k) msgs
          (if exec_err e k then db else IncrementOutboxRetries db (ID msg),
           tr @ [CallPublish topic (Payload msg), CallIncrementOutboxRetries (ID msg)])
      else
        edge_drain_loop e cfg (Suc k) msgs
          (if exec_err e k then db else AckOutbox (clock e) db (ID msg),
           tr @ [CallPublish topic (Payload msg), CallAckOutbox (ID msg)]))"

definition edge_drain :: "tick_env \<Rightarrow> MessagingConfig \<Rightarrow> outbox_db \<Rightarrow> outbox_db \<times> call list" where
  "edge_drain e cfg db =
     (if \<not> IsConnected e then (db, [])
      else if list_err e then (db, [CallListPendingOutbox 50])
      else edge_drain_loop e cfg 0 (ListPendingOutbox db 50) (db, [CallListPendingOutbox 50]))"











text \<open>Example worlds for the scenarios below.\<close>

definition example_env :: "bool \<Rightarrow> (nat \<Rightarrow> bool) \<Rightarrow> timestamp \<Rightarrow> tick_env" where
  "example_env up fails now =
     \<lparr>IsConnected = up, list_err = False, publish_err = fails, exec_err = (\<lambda>k. False),
      purge_err = False, clock = now\<rparr>"

definition example_cfg :: MessagingConfig where
  "example_cfg = \<lparr>OrdersTopic = ''shingo.orders'', OutboxDrainInterval = 5\<rparr>"

definition three_pending :: outbox_db where
  "three_pending =
     \<lparr>outbox_rows = [example_row 1 0 10 None, example_row 2 0 20 None, example_row 3 0 30 None],
      outbox_seq = 3\<rparr>"


subsection \<open>Properties of the drainers\<close>













lemma three_pending_list:
  "ListPendingOutbox three_pending 50 =
     [scan_row (example_row 1 0 10 None), scan_row (example_row 2 0 20 None),
      scan_row (example_row 3 0 30 None)]"
  by (simp add: ListPendingOutbox_def three_pending_def is_pending_def MaxOutboxRetries_def
      sql_limit_def example_row_def)

lemma three_pending_drained:
  "outbox_rows (fst (edge_drain (example_env True (\<lambda>k. k = 1) 100) example_cfg three_pending)) =
     [example_row 1 0 10 (Some 100), example_row 2 1 20 None, example_row 3 0 30 (Some 100)]"
  by (simp add: edge_drain_def three_pending_list example_env_def)
     (simp add: scan_row_def example_row_def three_pending_def AckOutbox_def
        IncrementOutboxRetries_def)

lemma three_pending_calls:
  "snd (edge_drain (example_env True (\<lambda>k. k = 1) 100) example_cfg three_pending) =
     [CallListPendingOutbox 50,
      CallPublish ''shingo.orders'' [], CallAckOutbox 1,
      CallPublish ''shingo.orders'' [], CallIncrementOutboxRetries 2,
      CallPublish ''shingo.orders'' [], CallAckOutbox 3]"
  by (simp add: edge_drain_def three_pending_list example_env_def)
     (simp add: scan_row_def example_row_def example_cfg_def)






section \<open>Fleet poller (shingo-core/rds)\<close>

type_synonym OrderState = string

text \<open>
  The fields of the fleet's order details that \<open>poll\<close> reads, and the arguments of
  \<open>EmitOrderStatusChanged\<close>.
\<close>

record OrderDetail =
  State :: OrderState
  Vehicle :: string

record StatusChanged =
  evOrderID :: int
  evRdsOrderID :: string
  evOldStatus :: string
  evNewStatus :: string
  evRobotID :: string
  evDetail :: string

datatype fleet_error = FleetError

text \<open>
  The constant \<open>StateCreated\<close> and the method \<open>IsTerminal\<close> of \<open>OrderState\<close> are
  declared outside src/: the poller's model takes them as parameters.
\<close>

record fleet_consts =
  StateCreated :: OrderState
  IsTerminal :: "OrderState \<Rightarrow> bool"

type_synonym active_map = "string \<rightharpoonup> OrderState"

definition Track :: "fleet_consts \<Rightarrow> active_map \<Rightarrow> string \<Rightarrow> active_map" where
  "Track c active rdsID =
     (case active rdsID of None \<Rightarrow> active(rdsID \<mapsto> StateCreated c) | Some s \<Rightarrow> active)"

definition Untrack :: "active_map \<Rightarrow> string \<Rightarrow> active_map" where
  "Untrack active rdsID = active(rdsID := None)"

definition ActiveCount :: "active_map \<Rightarrow> nat" where
  "ActiveCount active = card (dom active)"

text \<open>
  \<open>Track\<close> and \<open>Untrack\<close> are called from other goroutines while \<open>poll\<close> runs.
  \<open>poll\<close> holds the mutex only around each map access, so such calls take effect
  between its accesses.
\<close>

datatype tracker_call = CallTrack string | CallUntrack string

fun tracker_step :: "fleet_consts \<Rightarrow> active_map \<Rightarrow> tracker_call \<Rightarrow> active_map" where
  "tracker_step c active (CallTrack rdsID) = Track c active rdsID"
| "tracker_step c active (CallUntrack rdsID) = Untrack active rdsID"

definition tracker_calls :: "fleet_consts \<Rightarrow> active_map \<Rightarrow> tracker_call list \<Rightarrow> active_map" where
  "tracker_calls c active cs = foldl (tracker_step c) active cs"

text \<open>
  What the world does during one poll, by the position \<open>k\<close> of the id in the
  snapshot: the answer of \<open>GetOrderDetails\<close>, the answer of the resolver, the
  \<open>Track\<close>/\<open>Untrack\<close> calls of other goroutines that run after the previous map
  access and before the lookup of the old state (that is, since the snapshot or the
  previous id, and during the fetch), and those that run between the lookup and the
  write.
\<close>

record poll_env =
  GetOrderDetails :: "nat \<Rightarrow> string \<Rightarrow> fleet_error + OrderDetail"
  ResolveRDSOrderID :: "nat \<Rightarrow> string \<Rightarrow> fleet_error + int"
  before_lookup :: "nat \<Rightarrow> tracker_call list"
  before_write :: "nat \<Rightarrow> tracker_call list"

text \<open>
  The body of \<open>for _, rdsID := range ids\<close> in \<open>poll\<close>.  The state is the active
  map and the events emitted so far; every \<open>continue\<close> leaves both as they are.
\<close>

definition poll_one ::
  "fleet_consts \<Rightarrow> poll_env \<Rightarrow> nat \<Rightarrow> string \<Rightarrow> active_map \<times> StatusChanged list
     \<Rightarrow> active_map \<times> StatusChanged list" where
  "poll_one c w k rdsID st =
     (let a1 = tracker_calls c (fst st) (before_lookup w k) in
      case GetOrderDetails w k rdsID of
        Inl err \<Rightarrow> (a1, snd st)
      | Inr d \<Rightarrow>
          (case a1 rdsID of
             None \<Rightarrow> (a1, snd st)
           | Some oldState \<Rightarrow>
               (let newState = State d in
                if newState = oldState then (a1, snd st)
                else
                  (let a2 = tracker_calls c a1 (before_write w k);
                       a3 = (if IsTerminal c newState then a2(rdsID := None)
                             else a2(rdsID \<mapsto> newState))
                   in case ResolveRDSOrderID w k rdsID of
                        Inl err \<Rightarrow> (a3, snd st)
                      | Inr oid \<Rightarrow>
                          (a3, snd st @
                             [\<lparr>evOrderID = oid, evRdsOrderID = rdsID,
                               evOldStatus = oldState, evNewStatus = newState,
                               evRobotID = Vehicle d,
                               evDetail = ''fleet state: '' @ oldState @ '' -> '' @ newState\<rparr>])))))"

fun poll_loop ::
  "fleet_consts \<Rightarrow> poll_env \<Rightarrow> nat \<Rightarrow> string list \<Rightarrow> active_map \<times> StatusChanged list
     \<Rightarrow> active_map \<times> StatusChanged list" where
  "poll_loop c w k [] st = st"
| "poll_loop c w k (rdsID # ids) st = poll_loop c w (Suc k) ids (poll_one c w k rdsID st)"

text \<open>
  \<open>poll\<close>: \<open>ids\<close> is the snapshot of the keys, in the order Go's map iteration gave
  them; it lists every key of the map once.
\<close>

definition is_snapshot :: "active_map \<Rightarrow> string list \<Rightarrow> bool" where
  "is_snapshot active ids \<longleftrightarrow> distinct ids \<and> set ids = dom active"

definition poll ::
  "fleet_consts \<Rightarrow> poll_env \<Rightarrow> string list \<Rightarrow> active_map \<Rightarrow> active_map \<times> StatusChanged list" where
  "poll c w ids active = poll_loop c w 0 ids (active, [])"

definition status_event :: "int \<Rightarrow> string \<Rightarrow> OrderState \<Rightarrow> OrderDetail \<Rightarrow> StatusChanged" where
  "status_event oid rdsID oldState d =
     \<lparr>evOrderID = oid, evRdsOrderID = rdsID, evOldStatus = oldState, evNewStatus = State d,
      evRobotID = Vehicle d, evDetail = ''fleet state: '' @ oldState @ '' -> '' @ State d\<rparr>"

text \<open>The events of a tick that name one id.\<close>

definition events_for :: "string \<Rightarrow> StatusChanged list \<Rightarrow> StatusChanged list" where
  "events_for rdsID evs = filter (\<lambda>e. evRdsOrderID e = rdsID) evs"

text \<open>
  An id is undisturbed during a tick over \<open>n\<close> ids when no \<open>Track\<close> or \<open>Untrack\<close>
  call of another goroutine names it while the tick runs.
\<close>

fun call_id :: "tracker_call \<Rightarrow> string" where
  "call_id (CallTrack rdsID) = rdsID"
| "call_id (CallUntrack rdsID) = rdsID"

definition undisturbed :: "poll_env \<Rightarrow> nat \<Rightarrow> string \<Rightarrow> bool" where
  "undisturbed w n rdsID \<longleftrightarrow>
     (\<forall>k < n. rdsID \<notin> call_id ` set (before_lookup w k)
              \<and> rdsID \<notin> call_id ` set (before_write w k))"

text \<open>
  The state of a tick when it has handled the first \<open>k\<close> ids of its snapshot, the
  map it finds when it then looks up the next id (the calls of other goroutines since
  the previous access have taken effect), and the state stored there for that id.
\<close>

definition tick_at ::
  "fleet_consts \<Rightarrow> poll_env \<Rightarrow> string list \<Rightarrow> active_map \<Rightarrow> nat
     \<Rightarrow> active_map \<times> StatusChanged list" where
  "tick_at c w ids active k = poll c w (take k ids) active"

definition map_at_lookup ::
  "fleet_consts \<Rightarrow> poll_env \<Rightarrow> string list \<Rightarrow> active_map \<Rightarrow> nat \<Rightarrow> active_map" where
  "map_at_lookup c w ids active k =
     tracker_calls c (fst (tick_at c w ids active k)) (before_lookup w k)"

definition stored_state ::
  "fleet_consts \<Rightarrow> poll_env \<Rightarrow> string list \<Rightarrow> active_map \<Rightarrow> nat \<Rightarrow> OrderState option" where
  "stored_state c w ids active k = map_at_lookup c w ids active k (ids ! k)"

text \<open>Example fleet for the scenarios below.\<close>

definition example_fleet :: fleet_consts where
  "example_fleet =
     \<lparr>StateCreated = ''CREATED'',
      IsTerminal = (\<lambda>s. s = ''FINISHED'' \<or> s = ''FAILED'' \<or> s = ''STOPPED'')\<rparr>"

definition example_world :: "OrderState \<Rightarrow> tracker_call list \<Rightarrow> poll_env" where
  "example_world s cs =
     \<lparr>GetOrderDetails = (\<lambda>k rdsID. Inr \<lparr>State = s, Vehicle = ''AMR-1''\<rparr>),
      ResolveRDSOrderID = (\<lambda>k rdsID. Inr 42),
      before_lookup = (\<lambda>k. cs),
      before_write = (\<lambda>k. [])\<rparr>"

definition example_orders :: poll_env where
  "example_orders =
     \<lparr>GetOrderDetails = (\<lambda>k rdsID.
        if rdsID = ''R-1'' then Inr \<lparr>State = ''ASSIGNED'', Vehicle = ''AMR-1''\<rparr>
        else if rdsID = ''R-2'' then Inr \<lparr>State = ''FINISHED'', Vehicle = ''AMR-2''\<rparr>
        else if rdsID = ''R-3'' then Inr \<lparr>State = ''RUNNING'', Vehicle = ''AMR-3''\<rparr>
        else Inl FleetError),
      ResolveRDSOrderID = (\<lambda>k rdsID. if rdsID = ''R-1'' then Inr 41 else Inr 42),
      before_lookup = (\<lambda>k. []),
      before_write = (\<lambda>k. [])\<rparr>"

definition example_active :: active_map where
  "example_active = [''R-1'' \<mapsto> ''CREATED'', ''R-2'' \<mapsto> ''ASSIGNED'', ''R-3'' \<mapsto> ''RUNNING'']"

subsection \<open>Properties of the poller\<close>

lemma poll_one_fetch_error:
  assumes "GetOrderDetails w k rdsID = Inl err"
  shows "poll_one c w k rdsID st = (tracker_calls c (fst st) (before_lookup w k), snd st)"
  using assms by (simp add: poll_one_def)

lemma poll_one_untracked:
  assumes "GetOrderDetails w k rdsID = Inr d"
    and "tracker_calls c (fst st) (before_lookup w k) rdsID = None"
  shows "poll_one c w k rdsID st = (tracker_calls c (fst st) (before_lookup w k), snd st)"
  using assms by (simp add: poll_one_def)

lemma poll_one_same:
  assumes "GetOrderDetails w k rdsID = Inr d"
    and "tracker_calls c (fst st) (before_lookup w k) rdsID = Some (State d)"
  shows "poll_one c w k rdsID st = (tracker_calls c (fst st) (before_lookup w k), snd st)"
  using assms by (simp add: poll_one_def)

lemma poll_one_changed:
  assumes "GetOrderDetails w k rdsID = Inr d"
    and "tracker_calls c (fst st) (before_lookup w k) rdsID = Some oldState"
    and "State d \<noteq> oldState"
  shows "fst (poll_one c w k rdsID st) =
           (let a2 = tracker_calls c (tracker_calls c (fst st) (before_lookup w k)) (before_write w k)
            in if IsTerminal c (State d) then a2(rdsID := None) else a2(rdsID \<mapsto> State d))"
    and "snd (poll_one c w k rdsID st) =
           (case ResolveRDSOrderID w k rdsID of
              Inl err \<Rightarrow> snd st
            | Inr oid \<Rightarrow> snd st @ [status_event oid rdsID oldState d])"
  using assms by (simp_all add: poll_one_def Let_def status_event_def split: sum.splits)

lemma poll_one_events:
  "snd (poll_one c w k rdsID st) = snd st
   \<or> (\<exists>e. snd (poll_one c w k rdsID st) = snd st @ [e]
          \<and> evRdsOrderID e = rdsID \<and> evOldStatus e \<noteq> evNewStatus e)"
  by (simp add: poll_one_def Let_def split: sum.splits option.splits)

lemma poll_one_count:
  "length (filter (\<lambda>e. evRdsOrderID e = i) (snd (poll_one c w k rdsID st)))
     \<le> length (filter (\<lambda>e. evRdsOrderID e = i) (snd st)) + (if rdsID = i then 1 else 0)"
  using poll_one_events [of c w k rdsID st] by auto

lemma poll_loop_count:
  "length (filter (\<lambda>e. evRdsOrderID e = i) (snd (poll_loop c w k ids st)))
     \<le> length (filter (\<lambda>e. evRdsOrderID e = i) (snd st)) + count_list ids i"
proof (induction ids arbitrary: k st)
  case Nil
  show ?case by simp
next
  case (Cons rdsID ids)
  have "length (filter (\<lambda>e. evRdsOrderID e = i) (snd (poll_loop c w (Suc k) ids (poll_one c w k rdsID st))))
     \<le> length (filter (\<lambda>e. evRdsOrderID e = i) (snd (poll_one c w k rdsID st))) + count_list ids i"
    by (rule Cons.IH)
  also have "\<dots> \<le> (length (filter (\<lambda>e. evRdsOrderID e = i) (snd st)) + (if rdsID = i then 1 else 0))
       + count_list ids i"
    using poll_one_count [of i c w k rdsID st] by simp
  finally show ?case by (cases "rdsID = i") simp_all
qed

lemma count_list_distinct: "distinct xs \<Longrightarrow> count_list xs x \<le> 1"
  by (induction xs) auto

lemma poll_at_most_once:
  assumes "distinct ids"
  shows "length (filter (\<lambda>e. evRdsOrderID e = i) (snd (poll c w ids active))) \<le> 1"
proof -
  have "length (filter (\<lambda>e. evRdsOrderID e = i) (snd (poll c w ids active))) \<le> 0 + count_list ids i"
    unfolding poll_def using poll_loop_count [of i c w 0 ids "(active, [])"] by simp
  also have "\<dots> \<le> 1" using count_list_distinct [OF assms, of i] by simp
  finally show ?thesis .
qed

lemma poll_loop_old_new:
  assumes "\<forall>e \<in> set (snd st). evOldStatus e \<noteq> evNewStatus e"
  shows "\<forall>e \<in> set (snd (poll_loop c w k ids st)). evOldStatus e \<noteq> evNewStatus e"
  using assms
proof (induction ids arbitrary: k st)
  case Nil
  then show ?case by simp
next
  case (Cons rdsID ids)
  have "\<forall>e \<in> set (snd (poll_one c w k rdsID st)). evOldStatus e \<noteq> evNewStatus e"
    using poll_one_events [of c w k rdsID st] Cons.prems by auto
  then show ?case by (simp add: Cons.IH)
qed

lemma poll_loop_ids:
  "\<forall>e \<in> set (snd (poll_loop c w k ids st)). e \<in> set (snd st) \<or> evRdsOrderID e \<in> set ids"
proof (induction ids arbitrary: k st)
  case Nil
  show ?case by simp
next
  case (Cons rdsID ids)
  have one: "\<forall>e \<in> set (snd (poll_one c w k rdsID st)). e \<in> set (snd st) \<or> evRdsOrderID e = rdsID"
    using poll_one_events [of c w k rdsID st] by auto
  show ?case
  proof
    fix e
    assume "e \<in> set (snd (poll_loop c w k (rdsID # ids) st))"
    then have "e \<in> set (snd (poll_loop c w (Suc k) ids (poll_one c w k rdsID st)))" by simp
    with Cons.IH have "e \<in> set (snd (poll_one c w k rdsID st)) \<or> evRdsOrderID e \<in> set ids"
      by blast
    with one show "e \<in> set (snd st) \<or> evRdsOrderID e \<in> set (rdsID # ids)" by auto
  qed
qed

lemma example_track:
  "Track example_fleet Map.empty ''R-1'' = [''R-1'' \<mapsto> ''CREATED'']"
  by (simp add: Track_def example_fleet_def)

lemma example_poll_assigned:
  "poll example_fleet (example_world ''ASSIGNED'' []) [''R-1''] [''R-1'' \<mapsto> ''CREATED''] =
     ([''R-1'' \<mapsto> ''ASSIGNED''],
      [status_event 42 ''R-1'' ''CREATED'' \<lparr>State = ''ASSIGNED'', Vehicle = ''AMR-1''\<rparr>])"
  by (simp add: poll_def poll_one_def example_world_def example_fleet_def tracker_calls_def
      status_event_def Let_def)

lemma example_poll_again:
  "poll example_fleet (example_world ''ASSIGNED'' []) [''R-1''] [''R-1'' \<mapsto> ''ASSIGNED''] =
     ([''R-1'' \<mapsto> ''ASSIGNED''], [])"
  by (simp add: poll_def poll_one_def example_world_def example_fleet_def tracker_calls_def Let_def)

lemma example_poll_finished:
  "poll example_fleet (example_world ''FINISHED'' []) [''R-1''] [''R-1'' \<mapsto> ''ASSIGNED''] =
     (Map.empty,
      [status_event 42 ''R-1'' ''ASSIGNED'' \<lparr>State = ''FINISHED'', Vehicle = ''AMR-1''\<rparr>])"
  by (simp add: poll_def poll_one_def example_world_def example_fleet_def tracker_calls_def
      status_event_def Let_def)

lemma poll_loop_append:
  "poll_loop c w k (xs @ ys) st = poll_loop c w (k + length xs) ys (poll_loop c w k xs st)"
  by (induction xs arbitrary: k st) simp_all

lemma poll_prefix:
  assumes "k < length ids"
  shows "poll c w (take (Suc k) ids) active =
           poll_one c w k (ids ! k) (poll c w (take k ids) active)"
proof -
  have "take (Suc k) ids = take k ids @ [ids ! k]"
    using assms by (rule take_Suc_conv_app_nth)
  moreover have "length (take k ids) = k" using assms by simp
  ultimately show ?thesis
    by (simp add: poll_def poll_loop_append)
qed

lemma poll_suffix:
  "poll c w ids active = poll_loop c w n (drop n ids) (poll c w (take n ids) active)"
  if "n \<le> length ids"
proof -
  have "poll c w (take n ids @ drop n ids) active =
          poll_loop c w (0 + length (take n ids)) (drop n ids) (poll c w (take n ids) active)"
    unfolding poll_def by (rule poll_loop_append)
  with that show ?thesis by simp
qed

lemma events_for_poll_one:
  assumes "rdsID \<noteq> i"
  shows "events_for i (snd (poll_one c w k rdsID st)) = events_for i (snd st)"
  using poll_one_events [of c w k rdsID st] assms by (auto simp: events_for_def)

lemma events_for_poll_loop:
  assumes "i \<notin> set ids"
  shows "events_for i (snd (poll_loop c w k ids st)) = events_for i (snd st)"
  using assms
proof (induction ids arbitrary: k st)
  case Nil
  show ?case by simp
next
  case (Cons rdsID ids)
  then have "rdsID \<noteq> i" "i \<notin> set ids" by auto
  then show ?case
    by (simp add: Cons.IH events_for_poll_one)
qed

lemma nth_not_in_take: "distinct ids \<Longrightarrow> k < length ids \<Longrightarrow> ids ! k \<notin> set (take k ids)"
  by (auto simp: in_set_conv_nth nth_eq_iff_index_eq)

lemma nth_not_in_drop: "distinct ids \<Longrightarrow> k < length ids \<Longrightarrow> ids ! k \<notin> set (drop (Suc k) ids)"
  by (auto simp: in_set_conv_nth nth_eq_iff_index_eq)

text \<open>The events a tick emits for an id are those of the id's own step.\<close>

lemma events_for_poll:
  assumes "distinct ids" "k < length ids"
  shows "events_for (ids ! k) (snd (poll c w ids active)) =
           events_for (ids ! k) (snd (poll_one c w k (ids ! k) (poll c w (take k ids) active)))"
    and "events_for (ids ! k) (snd (poll c w (take k ids) active)) = []"
proof -
  have "poll c w ids active =
          poll_loop c w (Suc k) (drop (Suc k) ids) (poll c w (take (Suc k) ids) active)"
    using assms(2) by (intro poll_suffix) simp
  then have "events_for (ids ! k) (snd (poll c w ids active)) =
               events_for (ids ! k) (snd (poll c w (take (Suc k) ids) active))"
    using nth_not_in_drop [OF assms] by (simp add: events_for_poll_loop)
  then show "events_for (ids ! k) (snd (poll c w ids active)) =
           events_for (ids ! k) (snd (poll_one c w k (ids ! k) (poll c w (take k ids) active)))"
    using assms(2) by (simp add: poll_prefix)
  have "events_for (ids ! k) (snd (poll c w (take k ids) active)) = events_for (ids ! k) []"
    unfolding poll_def using nth_not_in_take [OF assms]
    by (simp add: events_for_poll_loop)
  then show "events_for (ids ! k) (snd (poll c w (take k ids) active)) = []"
    by (simp add: events_for_def)
qed

lemma tracker_calls_other:
  assumes "i \<notin> call_id ` set cs"
  shows "tracker_calls c active cs i = active i"
  using assms
proof (induction cs arbitrary: active)
  case Nil
  show ?case by (simp add: tracker_calls_def)
next
  case (Cons x cs)
  then have a: "call_id x \<noteq> i" and b: "i \<notin> call_id ` set cs" by auto
  have "tracker_calls c active (x # cs) = tracker_calls c (tracker_step c active x) cs"
    by (simp add: tracker_calls_def)
  moreover have "tracker_step c active x i = active i"
    using a by (cases x) (auto simp: Track_def Untrack_def split: option.splits)
  ultimately show ?case
    using Cons.IH [OF b, of "tracker_step c active x"] by simp
qed

lemma poll_one_other:
  assumes "rdsID \<noteq> i" "i \<notin> call_id ` set (before_lookup w k)"
    "i \<notin> call_id ` set (before_write w k)"
  shows "fst (poll_one c w k rdsID st) i = fst st i"
  using assms
  by (simp add: poll_one_def Let_def tracker_calls_other split: sum.splits option.splits)

lemma poll_loop_other:
  assumes "i \<notin> set ids"
    and "\<forall>j < length ids. i \<notin> call_id ` set (before_lookup w (k + j))
                          \<and> i \<notin> call_id ` set (before_write w (k + j))"
  shows "fst (poll_loop c w k ids st) i = fst st i"
  using assms
proof (induction ids arbitrary: k st)
  case Nil
  show ?case by simp
next
  case (Cons rdsID ids)
  from Cons.prems(1) have ne: "rdsID \<noteq> i" and ni: "i \<notin> set ids" by auto
  from Cons.prems(2) have h: "i \<notin> call_id ` set (before_lookup w k)"
      "i \<notin> call_id ` set (before_write w k)"
    by force+
  have t: "\<forall>j < length ids. i \<notin> call_id ` set (before_lookup w (Suc k + j))
                          \<and> i \<notin> call_id ` set (before_write w (Suc k + j))"
  proof (intro allI impI)
    fix j
    assume "j < length ids"
    then have "Suc j < length (rdsID # ids)" by simp
    with Cons.prems(2) show "i \<notin> call_id ` set (before_lookup w (Suc k + j))
                          \<and> i \<notin> call_id ` set (before_write w (Suc k + j))"
      by (metis add_Suc_shift)
  qed
  have "fst (poll_loop c w (Suc k) ids (poll_one c w k rdsID st)) i = fst (poll_one c w k rdsID st) i"
    using ni t by (rule Cons.IH)
  also have "\<dots> = fst st i"
    using ne h by (rule poll_one_other)
  finally show ?case by simp
qed

text \<open>
  For an undisturbed id the tick looks up the state of the snapshot, and what the
  id's own step writes is what the map holds at the end of the tick.
\<close>

lemma poll_undisturbed:
  assumes "distinct ids" "k < length ids" "undisturbed w (length ids) (ids ! k)"
  shows "tracker_calls c (fst (poll c w (take k ids) active)) (before_lookup w k) (ids ! k) =
           active (ids ! k)"
    and "fst (poll c w ids active) (ids ! k) =
           fst (poll_one c w k (ids ! k) (poll c w (take k ids) active)) (ids ! k)"
proof -
  let ?i = "ids ! k"
  from assms(3) have q: "\<And>j. j < length ids \<Longrightarrow>
      ?i \<notin> call_id ` set (before_lookup w j) \<and> ?i \<notin> call_id ` set (before_write w j)"
    by (simp add: undisturbed_def)
  have "fst (poll c w (take k ids) active) ?i = active ?i"
    using poll_loop_other [of ?i "take k ids" w 0 c "(active, [])"]
      nth_not_in_take [OF assms(1,2)] q assms(2)
    by (simp add: poll_def)
  moreover have "tracker_calls c (fst (poll c w (take k ids) active)) (before_lookup w k) ?i =
      fst (poll c w (take k ids) active) ?i"
    using q [OF assms(2)] by (simp add: tracker_calls_other)
  ultimately show "tracker_calls c (fst (poll c w (take k ids) active)) (before_lookup w k) ?i =
           active ?i"
    by simp
  have "poll c w ids active =
          poll_loop c w (Suc k) (drop (Suc k) ids) (poll c w (take (Suc k) ids) active)"
    using assms(2) by (intro poll_suffix) simp
  moreover have "fst (poll_loop c w (Suc k) (drop (Suc k) ids) (poll c w (take (Suc k) ids) active)) ?i
      = fst (poll c w (take (Suc k) ids) active) ?i"
  proof (rule poll_loop_other)
    show "?i \<notin> set (drop (Suc k) ids)" using assms(1,2) by (rule nth_not_in_drop)
    show "\<forall>j < length (drop (Suc k) ids). ?i \<notin> call_id ` set (before_lookup w (Suc k + j))
                          \<and> ?i \<notin> call_id ` set (before_write w (Suc k + j))"
      using q by simp
  qed
  ultimately show "fst (poll c w ids active) ?i =
           fst (poll_one c w k ?i (poll c w (take k ids) active)) ?i"
    using assms(2) by (simp add: poll_prefix)
qed

lemma tick_at_Suc:
  assumes "k < length ids"
  shows "tick_at c w ids active (Suc k) = poll_one c w k (ids ! k) (tick_at c w ids active k)"
  using assms by (simp add: tick_at_def poll_prefix)

lemma tick_at_skip:
  assumes "distinct ids" "k < length ids"
    and "snd (tick_at c w ids active (Suc k)) = snd (tick_at c w ids active k)"
  shows "events_for (ids ! k) (snd (poll c w ids active)) = []"
proof -
  have "snd (poll_one c w k (ids ! k) (poll c w (take k ids) active)) =
          snd (poll c w (take k ids) active)"
    using assms(3) by (simp add: tick_at_def poll_prefix [OF assms(2)])
  then show ?thesis
    using events_for_poll [OF assms(1,2), of c w active] by simp
qed

lemma example_poll_orders:
  "poll example_fleet example_orders [''R-2'', ''R-3'', ''R-1''] example_active =
     ([''R-1'' \<mapsto> ''ASSIGNED'', ''R-3'' \<mapsto> ''RUNNING''],
      [status_event 42 ''R-2'' ''ASSIGNED'' \<lparr>State = ''FINISHED'', Vehicle = ''AMR-2''\<rparr>,
       status_event 41 ''R-1'' ''CREATED'' \<lparr>State = ''ASSIGNED'', Vehicle = ''AMR-1''\<rparr>])"
  by (simp add: poll_def poll_one_def example_orders_def example_fleet_def example_active_def
      tracker_calls_def status_event_def Let_def fun_upd_twist)

text \<open>
  C4.  On a poll tick, every id of the snapshot gets its step, in the snapshot's
  order.  If the fetched state equals the state stored for the id, the step writes
  nothing to the map and the tick emits nothing for the id; if it differs, the entry
  is removed when the new state is terminal and set to the new state otherwise, no
  other entry is written, and the tick emits for the id nothing (the resolver failed)
  or exactly one event, which carries the id, the old and the new state; an id that
  is no longer in the map at its lookup is skipped, and so is one whose fetch failed.
  For an id that no other goroutine tracks or untracks during the tick, the stored
  state is the one of the snapshot and the entry at the end of the tick is the one its
  step left.  Over a whole tick every id gets at most one event, and every event
  names an id of the snapshot and two different states.
\<close>

theorem poll_transitions:
  "(is_snapshot active ids \<and> k < length ids \<and> GetOrderDetails w k (ids ! k) = Inr d
      \<and> stored_state c w ids active k = Some (State d) \<longrightarrow>
        fst (tick_at c w ids active (Suc k)) = map_at_lookup c w ids active k
        \<and> events_for (ids ! k) (snd (poll c w ids active)) = [])
   \<and> (is_snapshot active ids \<and> k < length ids \<and> GetOrderDetails w k (ids ! k) = Inr d
      \<and> stored_state c w ids active k = Some oldState \<and> State d \<noteq> oldState \<longrightarrow>
        fst (tick_at c w ids active (Suc k)) (ids ! k) =
          (if IsTerminal c (State d) then None else Some (State d))
        \<and> (\<forall>other. other \<noteq> ids ! k \<longrightarrow>
              fst (tick_at c w ids active (Suc k)) other =
                tracker_calls c (map_at_lookup c w ids active k) (before_write w k) other)
        \<and> events_for (ids ! k) (snd (poll c w ids active)) =
            (case ResolveRDSOrderID w k (ids ! k) of
               Inl err \<Rightarrow> []
             | Inr oid \<Rightarrow> [status_event oid (ids ! k) oldState d]))
   \<and> (is_snapshot active ids \<and> k < length ids \<and> GetOrderDetails w k (ids ! k) = Inr d
      \<and> stored_state c w ids active k = None \<longrightarrow>
        fst (tick_at c w ids active (Suc k)) = map_at_lookup c w ids active k
        \<and> events_for (ids ! k) (snd (poll c w ids active)) = [])
   \<and> (is_snapshot active ids \<and> k < length ids \<and> GetOrderDetails w k (ids ! k) = Inl err \<longrightarrow>
        fst (tick_at c w ids active (Suc k)) = map_at_lookup c w ids active k
        \<and> events_for (ids ! k) (snd (poll c w ids active)) = [])
   \<and> (is_snapshot active ids \<and> k < length ids \<and> undisturbed w (length ids) (ids ! k) \<longrightarrow>
        stored_state c w ids active k = active (ids ! k)
        \<and> fst (poll c w ids active) (ids ! k) = fst (tick_at c w ids active (Suc k)) (ids ! k))
   \<and> tick_at c w ids active 0 = (active, [])
   \<and> tick_at c w ids active (length ids) = poll c w ids active
   \<and> (is_snapshot active ids \<longrightarrow>
        (\<forall>i. length (events_for i (snd (poll c w ids active))) \<le> 1)
        \<and> (\<forall>e \<in> set (snd (poll c w ids active)).
              evOldStatus e \<noteq> evNewStatus e \<and> evRdsOrderID e \<in> dom active))"
proof -
  let ?st = "tick_at c w ids active k"
  let ?i = "ids ! k"
  have same: "fst (tick_at c w ids active (Suc k)) = map_at_lookup c w ids active k
        \<and> events_for ?i (snd (poll c w ids active)) = []"
    if a: "is_snapshot active ids \<and> k < length ids \<and> GetOrderDetails w k ?i = Inr d
      \<and> stored_state c w ids active k = Some (State d)"
  proof -
    from a have k: "k < length ids" and ds: "distinct ids" by (simp_all add: is_snapshot_def)
    from a have "poll_one c w k ?i ?st = (map_at_lookup c w ids active k, snd ?st)"
      using poll_one_same [of w k ?i d c ?st] by (simp add: stored_state_def map_at_lookup_def)
    then have s: "tick_at c w ids active (Suc k) = (map_at_lookup c w ids active k, snd ?st)"
      by (simp add: tick_at_Suc [OF k])
    then have "snd (tick_at c w ids active (Suc k)) = snd ?st" by simp
    with ds k have "events_for ?i (snd (poll c w ids active)) = []" by (rule tick_at_skip)
    with s show ?thesis by simp
  qed
  have untracked: "fst (tick_at c w ids active (Suc k)) = map_at_lookup c w ids active k
        \<and> events_for ?i (snd (poll c w ids active)) = []"
    if a: "is_snapshot active ids \<and> k < length ids \<and> GetOrderDetails w k ?i = Inr d
      \<and> stored_state c w ids active k = None"
  proof -
    from a have k: "k < length ids" and ds: "distinct ids" by (simp_all add: is_snapshot_def)
    from a have "poll_one c w k ?i ?st = (map_at_lookup c w ids active k, snd ?st)"
      using poll_one_untracked [of w k ?i d c ?st]
      by (simp add: stored_state_def map_at_lookup_def)
    then have s: "tick_at c w ids active (Suc k) = (map_at_lookup c w ids active k, snd ?st)"
      by (simp add: tick_at_Suc [OF k])
    then have "snd (tick_at c w ids active (Suc k)) = snd ?st" by simp
    with ds k have "events_for ?i (snd (poll c w ids active)) = []" by (rule tick_at_skip)
    with s show ?thesis by simp
  qed
  have failed: "fst (tick_at c w ids active (Suc k)) = map_at_lookup c w ids active k
        \<and> events_for ?i (snd (poll c w ids active)) = []"
    if a: "is_snapshot active ids \<and> k < length ids \<and> GetOrderDetails w k ?i = Inl err"
  proof -
    from a have k: "k < length ids" and ds: "distinct ids" by (simp_all add: is_snapshot_def)
    from a have "poll_one c w k ?i ?st = (map_at_lookup c w ids active k, snd ?st)"
      using poll_one_fetch_error [of w k ?i err c ?st] by (simp add: map_at_lookup_def)
    then have s: "tick_at c w ids active (Suc k) = (map_at_lookup c w ids active k, snd ?st)"
      by (simp add: tick_at_Suc [OF k])
    then have "snd (tick_at c w ids active (Suc k)) = snd ?st" by simp
    with ds k have "events_for ?i (snd (poll c w ids active)) = []" by (rule tick_at_skip)
    with s show ?thesis by simp
  qed
  have changed: "fst (tick_at c w ids active (Suc k)) ?i =
          (if IsTerminal c (State d) then None else Some (State d))
        \<and> (\<forall>other. other \<noteq> ?i \<longrightarrow>
              fst (tick_at c w ids active (Suc k)) other =
                tracker_calls c (map_at_lookup c w ids active k) (before_write w k) other)
        \<and> events_for ?i (snd (poll c w ids active)) =
            (case ResolveRDSOrderID w k ?i of
               Inl err \<Rightarrow> []
             | Inr oid \<Rightarrow> [status_event oid ?i oldState d])"
    if a: "is_snapshot active ids \<and> k < length ids \<and> GetOrderDetails w k ?i = Inr d
      \<and> stored_state c w ids active k = Some oldState \<and> State d \<noteq> oldState"
  proof -
    from a have k: "k < length ids" and ds: "distinct ids" by (simp_all add: is_snapshot_def)
    from a have g: "GetOrderDetails w k ?i = Inr d"
      and l: "tracker_calls c (fst ?st) (before_lookup w k) ?i = Some oldState"
      and n: "State d \<noteq> oldState"
      by (simp_all add: stored_state_def map_at_lookup_def)
    note ch = poll_one_changed [OF g l n]
    have m: "fst (tick_at c w ids active (Suc k)) =
               (let a2 = tracker_calls c (map_at_lookup c w ids active k) (before_write w k)
                in if IsTerminal c (State d) then a2(?i := None) else a2(?i \<mapsto> State d))"
      using ch(1) by (simp add: tick_at_Suc [OF k] map_at_lookup_def)
    have e: "snd (tick_at c w ids active (Suc k)) =
           (case ResolveRDSOrderID w k ?i of
              Inl err \<Rightarrow> snd ?st
            | Inr oid \<Rightarrow> snd ?st @ [status_event oid ?i oldState d])"
      using ch(2) by (simp add: tick_at_Suc [OF k])
    have z: "events_for ?i (snd ?st) = []"
      using events_for_poll(2) [OF ds k, of c w active] by (simp add: tick_at_def)
    have "events_for ?i (snd (poll c w ids active)) =
            events_for ?i (snd (tick_at c w ids active (Suc k)))"
      using events_for_poll(1) [OF ds k, of c w active]
      by (simp add: tick_at_Suc [OF k]) (simp add: tick_at_def)
    also have "\<dots> = (case ResolveRDSOrderID w k ?i of
               Inl err \<Rightarrow> []
             | Inr oid \<Rightarrow> [status_event oid ?i oldState d])"
      unfolding e using z
      by (cases "ResolveRDSOrderID w k ?i") (simp_all add: events_for_def status_event_def)
    finally have ev: "events_for ?i (snd (poll c w ids active)) =
            (case ResolveRDSOrderID w k ?i of
               Inl err \<Rightarrow> []
             | Inr oid \<Rightarrow> [status_event oid ?i oldState d])" .
    from m ev show ?thesis by (simp add: Let_def)
  qed
  have quiet: "stored_state c w ids active k = active ?i
        \<and> fst (poll c w ids active) ?i = fst (tick_at c w ids active (Suc k)) ?i"
    if a: "is_snapshot active ids \<and> k < length ids \<and> undisturbed w (length ids) ?i"
  proof -
    from a have k: "k < length ids" and ds: "distinct ids" and u: "undisturbed w (length ids) ?i"
      by (simp_all add: is_snapshot_def)
    note p = poll_undisturbed [OF ds k u, of c active]
    from p(1) have "stored_state c w ids active k = active ?i"
      by (simp add: stored_state_def map_at_lookup_def tick_at_def)
    moreover from p(2) have "fst (poll c w ids active) ?i = fst (tick_at c w ids active (Suc k)) ?i"
      by (simp add: tick_at_Suc [OF k]) (simp add: tick_at_def)
    ultimately show ?thesis by simp
  qed
  have ends: "tick_at c w ids active 0 = (active, [])"
    "tick_at c w ids active (length ids) = poll c w ids active"
    by (simp_all add: tick_at_def poll_def)
  have whole: "(\<forall>i. length (events_for i (snd (poll c w ids active))) \<le> 1)
        \<and> (\<forall>e \<in> set (snd (poll c w ids active)).
              evOldStatus e \<noteq> evNewStatus e \<and> evRdsOrderID e \<in> dom active)"
    if s: "is_snapshot active ids"
  proof -
    from s have "distinct ids" by (simp add: is_snapshot_def)
    then have "\<forall>i. length (events_for i (snd (poll c w ids active))) \<le> 1"
      unfolding events_for_def using poll_at_most_once by blast
    moreover have a: "\<forall>e \<in> set (snd (poll c w ids active)). evOldStatus e \<noteq> evNewStatus e"
      unfolding poll_def by (rule poll_loop_old_new) simp
    moreover have b: "\<forall>e \<in> set (snd (poll c w ids active)). evRdsOrderID e \<in> set ids"
      unfolding poll_def using poll_loop_ids [of c w 0 ids "(active, [])"] by simp
    ultimately show ?thesis using s by (simp add: is_snapshot_def)
  qed
  from same changed untracked failed quiet ends whole show ?thesis by blast
qed

theorem poll_transitions_witness:
  "is_snapshot example_active [''R-2'', ''R-3'', ''R-1'']
   \<and> example_active ''R-1'' = Some ''CREATED''
   \<and> example_active ''R-2'' = Some ''ASSIGNED''
   \<and> example_active ''R-3'' = Some ''RUNNING''
   \<and> fst (poll example_fleet example_orders [''R-2'', ''R-3'', ''R-1''] example_active) ''R-2'' = None
   \<and> events_for ''R-2''
        (snd (poll example_fleet example_orders [''R-2'', ''R-3'', ''R-1''] example_active)) =
       [status_event 42 ''R-2'' ''ASSIGNED'' \<lparr>State = ''FINISHED'', Vehicle = ''AMR-2''\<rparr>]
   \<and> fst (poll example_fleet example_orders [''R-2'', ''R-3'', ''R-1''] example_active) ''R-3'' =
       Some ''RUNNING''
   \<and> events_for ''R-3''
        (snd (poll example_fleet example_orders [''R-2'', ''R-3'', ''R-1''] example_active)) = []
   \<and> fst (poll example_fleet example_orders [''R-2'', ''R-3'', ''R-1''] example_active) ''R-1'' =
       Some ''ASSIGNED''
   \<and> events_for ''R-1''
        (snd (poll example_fleet example_orders [''R-2'', ''R-3'', ''R-1''] example_active)) =
       [status_event 41 ''R-1'' ''CREATED'' \<lparr>State = ''ASSIGNED'', Vehicle = ''AMR-1''\<rparr>]
   \<and> poll example_fleet example_orders [''R-2'', ''R-3'', ''R-1''] example_active =
       ([''R-1'' \<mapsto> ''ASSIGNED'', ''R-3'' \<mapsto> ''RUNNING''],
        [status_event 42 ''R-2'' ''ASSIGNED'' \<lparr>State = ''FINISHED'', Vehicle = ''AMR-2''\<rparr>,
         status_event 41 ''R-1'' ''CREATED'' \<lparr>State = ''ASSIGNED'', Vehicle = ''AMR-1''\<rparr>])
   \<and> events_for ''R-1''
        (snd (poll example_fleet (example_world ''ASSIGNED'' [CallUntrack ''R-1'']) [''R-1'']
               [''R-1'' \<mapsto> ''CREATED''])) = []
   \<and> fst (poll example_fleet (example_world ''ASSIGNED'' [CallUntrack ''R-1'']) [''R-1'']
               [''R-1'' \<mapsto> ''CREATED'']) = Map.empty
   \<and> events_for ''R-9''
        (snd (poll example_fleet example_orders [''R-9''] [''R-9'' \<mapsto> ''CREATED''])) = []
   \<and> fst (poll example_fleet example_orders [''R-9''] [''R-9'' \<mapsto> ''CREATED'']) =
       [''R-9'' \<mapsto> ''CREATED'']
   \<and> Track example_fleet Map.empty ''R-1'' = [''R-1'' \<mapsto> ''CREATED'']
   \<and> ActiveCount (fst (poll example_fleet (example_world ''FINISHED'' []) [''R-1'']
        [''R-1'' \<mapsto> ''ASSIGNED''])) = 0"
proof -
  let ?c = example_fleet
  let ?w = example_orders
  let ?ids = "[''R-2'', ''R-3'', ''R-1'']"
  let ?dA = "\<lparr>State = ''ASSIGNED'', Vehicle = ''AMR-1''\<rparr>"
  let ?dF = "\<lparr>State = ''FINISHED'', Vehicle = ''AMR-2''\<rparr>"
  let ?dR = "\<lparr>State = ''RUNNING'', Vehicle = ''AMR-3''\<rparr>"
  let ?wu = "example_world ''ASSIGNED'' [CallUntrack ''R-1'']"
  let ?one = "[''R-1'' \<mapsto> ''CREATED'']"
  let ?nine = "[''R-9'' \<mapsto> ''CREATED'']"
  have snap: "is_snapshot example_active ?ids"
    by (auto simp: is_snapshot_def example_active_def)
  have act: "example_active ''R-1'' = Some ''CREATED''" "example_active ''R-2'' = Some ''ASSIGNED''"
    "example_active ''R-3'' = Some ''RUNNING''"
    by (simp_all add: example_active_def)
  have fetch: "GetOrderDetails ?w 0 ''R-2'' = Inr ?dF" "GetOrderDetails ?w (Suc 0) ''R-3'' = Inr ?dR"
    "GetOrderDetails ?w (Suc (Suc 0)) ''R-1'' = Inr ?dA" "GetOrderDetails ?w 0 ''R-9'' = Inl FleetError"
    "GetOrderDetails ?wu 0 ''R-1'' = Inr ?dA"
    by (simp_all add: example_orders_def example_world_def)
  have res: "ResolveRDSOrderID ?w 0 ''R-2'' = Inr 42" "ResolveRDSOrderID ?w (Suc (Suc 0)) ''R-1'' = Inr 41"
    by (simp_all add: example_orders_def)
  have calm: "undisturbed ?w (length ?ids) ''R-2''" "undisturbed ?w (length ?ids) ''R-3''"
    "undisturbed ?w (length ?ids) ''R-1''"
    by (simp_all add: undisturbed_def example_orders_def)
  have tml: "IsTerminal ?c ''FINISHED''" "\<not> IsTerminal ?c ''ASSIGNED''"
    by (simp_all add: example_fleet_def)
  have pos: "0 < length ?ids" "Suc 0 < length ?ids" "Suc (Suc 0) < length ?ids"
    "?ids ! 0 = ''R-2''" "?ids ! Suc 0 = ''R-3''" "?ids ! Suc (Suc 0) = ''R-1''"
    by simp_all
  note two = poll_transitions [where c = ?c and w = ?w and ids = ?ids and active = example_active
      and k = 0 and d = ?dF and oldState = "''ASSIGNED''" and err = FleetError]
  note three = poll_transitions [where c = ?c and w = ?w and ids = ?ids and active = example_active
      and k = "Suc 0" and d = ?dR and oldState = "''RUNNING''" and err = FleetError]
  note one = poll_transitions [where c = ?c and w = ?w and ids = ?ids and active = example_active
      and k = "Suc (Suc 0)" and d = ?dA and oldState = "''CREATED''" and err = FleetError]
  note gone = poll_transitions [where c = ?c and w = ?wu and ids = "[''R-1'']" and active = ?one
      and k = 0 and d = ?dA and oldState = "''CREATED''" and err = FleetError]
  note nine = poll_transitions [where c = ?c and w = ?w and ids = "[''R-9'']" and active = ?nine
      and k = 0 and d = ?dA and oldState = "''CREATED''" and err = FleetError]
  note quiet2 = two [THEN conjunct2, THEN conjunct2, THEN conjunct2, THEN conjunct2, THEN conjunct1]
  note quiet3 = three [THEN conjunct2, THEN conjunct2, THEN conjunct2, THEN conjunct2, THEN conjunct1]
  note quiet1 = one [THEN conjunct2, THEN conjunct2, THEN conjunct2, THEN conjunct2, THEN conjunct1]
  have s2: "stored_state ?c ?w ?ids example_active 0 = Some ''ASSIGNED''"
    and f2: "fst (poll ?c ?w ?ids example_active) ''R-2'' =
               fst (tick_at ?c ?w ?ids example_active (Suc 0)) ''R-2''"
    using quiet2 snap pos(1) calm(1) act(2) unfolding pos(4) by simp_all
  have s3: "stored_state ?c ?w ?ids example_active (Suc 0) = Some ''RUNNING''"
    and f3: "fst (poll ?c ?w ?ids example_active) ''R-3'' =
               fst (tick_at ?c ?w ?ids example_active (Suc (Suc 0))) ''R-3''"
    using quiet3 snap pos(2) calm(2) act(3) unfolding pos(5) by simp_all
  have s1: "stored_state ?c ?w ?ids example_active (Suc (Suc 0)) = Some ''CREATED''"
    and f1: "fst (poll ?c ?w ?ids example_active) ''R-1'' =
               fst (tick_at ?c ?w ?ids example_active (Suc (Suc (Suc 0)))) ''R-1''"
    using quiet1 snap pos(3) calm(3) act(1) unfolding pos(6) by simp_all
  have c2: "fst (poll ?c ?w ?ids example_active) ''R-2'' = None"
    and e2: "events_for ''R-2'' (snd (poll ?c ?w ?ids example_active)) =
               [status_event 42 ''R-2'' ''ASSIGNED'' ?dF]"
    using two [THEN conjunct2, THEN conjunct1] snap pos(1) fetch(1) s2 res(1) tml
    unfolding pos(4) f2 by simp_all
  have c3: "fst (poll ?c ?w ?ids example_active) ''R-3'' = Some ''RUNNING''"
    and e3: "events_for ''R-3'' (snd (poll ?c ?w ?ids example_active)) = []"
    using three [THEN conjunct1] snap pos(2) fetch(2) s3
    unfolding pos(5) f3 by (simp_all add: stored_state_def)
  have c1: "fst (poll ?c ?w ?ids example_active) ''R-1'' = Some ''ASSIGNED''"
    and e1: "events_for ''R-1'' (snd (poll ?c ?w ?ids example_active)) =
               [status_event 41 ''R-1'' ''CREATED'' ?dA]"
    using one [THEN conjunct2, THEN conjunct1] snap pos(3) fetch(3) s1 res(2) tml
    unfolding pos(6) f1 by simp_all
  have snap1: "is_snapshot ?one [''R-1'']" and snap9: "is_snapshot ?nine [''R-9'']"
    by (simp_all add: is_snapshot_def)
  have su: "stored_state ?c ?wu [''R-1''] ?one 0 = None"
    and mu: "map_at_lookup ?c ?wu [''R-1''] ?one 0 = Map.empty"
    by (simp_all add: stored_state_def map_at_lookup_def tick_at_def poll_def tracker_calls_def
        example_world_def Untrack_def)
  have ends1: "tick_at ?c ?wu [''R-1''] ?one (Suc 0) = poll ?c ?wu [''R-1''] ?one"
    and ends9: "tick_at ?c ?w [''R-9''] ?nine (Suc 0) = poll ?c ?w [''R-9''] ?nine"
    by (simp_all add: tick_at_def)
  have g1: "events_for ''R-1'' (snd (poll ?c ?wu [''R-1''] ?one)) = []"
    and g2: "fst (poll ?c ?wu [''R-1''] ?one) = Map.empty"
    using gone [THEN conjunct2, THEN conjunct2, THEN conjunct1] snap1 fetch(5) su mu
    unfolding ends1 by simp_all
  have m9: "map_at_lookup ?c ?w [''R-9''] ?nine 0 = ?nine"
    by (simp add: map_at_lookup_def tick_at_def poll_def tracker_calls_def example_orders_def)
  have n1: "events_for ''R-9'' (snd (poll ?c ?w [''R-9''] ?nine)) = []"
    and n2: "fst (poll ?c ?w [''R-9''] ?nine) = ?nine"
    using nine [THEN conjunct2, THEN conjunct2, THEN conjunct2, THEN conjunct1] snap9 fetch(4) m9
    unfolding ends9 by simp_all
  have cnt: "ActiveCount (fst (poll ?c (example_world ''FINISHED'' []) [''R-1'']
        [''R-1'' \<mapsto> ''ASSIGNED''])) = 0"
    by (simp add: example_poll_finished ActiveCount_def)
  from snap act c2 e2 c3 e3 c1 e1 example_poll_orders g1 g2 n1 n2 example_track cnt
  show ?thesis by simp
qed

section \<open>Protocol ingestor (protocol/ingestor.go, protocol/types.go)\<close>

text \<open>
  Modelled from the spec: the structs \<open>Address\<close>, \<open>RawHeader\<close> and \<open>Envelope\<close> and
  the function \<open>IsExpiredHeader\<close> are declared outside src/.  The specification gives
  their fields (an envelope is the header's fields plus \<open>reply_to\<close>,
  \<open>correlation_id\<close> and the raw \<open>payload\<close>) and says: \<open>IsExpiredHeader(h)\<close> returns
  true iff \<open>h.expires_at\<close> is set and \<open>now \<ge> h.expires_at\<close>.
\<close>

record Address =
  Role :: string
  Station :: string
  Node :: string

record RawHeader =
  Type :: string
  MessageID :: string
  Timestamp :: timestamp
  Src :: Address
  Dst :: Address
  ExpiresAt :: "timestamp option"

record Envelope = RawHeader +
  ReplyTo :: string
  CorrelationID :: string
  RawPayload :: bytes

definition IsExpiredHeader :: "timestamp \<Rightarrow> RawHeader \<Rightarrow> bool" where
  "IsExpiredHeader now hdr = (case ExpiresAt hdr of None \<Rightarrow> False | Some t \<Rightarrow> t \<le> now)"

text \<open>The message type constants of protocol/types.go.\<close>

definition TypeData :: string where "TypeData = ''data''"
definition TypeOrderRequest :: string where "TypeOrderRequest = ''order.request''"
definition TypeOrderCancel :: string where "TypeOrderCancel = ''order.cancel''"
definition TypeOrderReceipt :: string where "TypeOrderReceipt = ''order.receipt''"
definition TypeOrderRedirect :: string where "TypeOrderRedirect = ''order.redirect''"
definition TypeOrderStorageWaybill :: string where "TypeOrderStorageWaybill = ''order.storage_waybill''"
definition TypeOrderAck :: string where "TypeOrderAck = ''order.ack''"
definition TypeOrderWaybill :: string where "TypeOrderWaybill = ''order.waybill''"
definition TypeOrderUpdate :: string where "TypeOrderUpdate = ''order.update''"
definition TypeOrderDelivered :: string where "TypeOrderDelivered = ''order.delivered''"
definition TypeOrderError :: string where "TypeOrderError = ''order.error''"
definition TypeOrderCancelled :: string where "TypeOrderCancelled = ''order.cancelled''"

definition known_types :: "string list" where
  "known_types =
     [TypeData, TypeOrderRequest, TypeOrderCancel, TypeOrderReceipt, TypeOrderRedirect,
      TypeOrderStorageWaybill, TypeOrderAck, TypeOrderWaybill, TypeOrderUpdate,
      TypeOrderDelivered, TypeOrderError, TypeOrderCancelled]"

text \<open>The methods of the interface \<open>MessageHandler\<close>.\<close>

datatype handler_method =
    HandleData
  | HandleOrderRequest
  | HandleOrderCancel
  | HandleOrderReceipt
  | HandleOrderRedirect
  | HandleOrderStorageWaybill
  | HandleOrderAck
  | HandleOrderWaybill
  | HandleOrderUpdate
  | HandleOrderDelivered
  | HandleOrderError
  | HandleOrderCancelled

datatype decode_error = DecodeError

text \<open>
  \<open>json.Unmarshal\<close> into a \<open>RawHeader\<close>, into an \<open>Envelope\<close> and into the payload
  type of a handler method.  The payload structs are declared outside src/; \<open>'p\<close>
  is the type of a decoded payload.
\<close>

record 'p json_decoder =
  unmarshal_header :: "bytes \<Rightarrow> decode_error + RawHeader"
  unmarshal_envelope :: "bytes \<Rightarrow> decode_error + Envelope"
  unmarshal_payload :: "handler_method \<Rightarrow> bytes \<Rightarrow> decode_error + 'p"

text \<open>
  What one call of \<open>HandleRaw\<close> does: the handler methods it invokes, each with the
  envelope and the decoded payload, and the lines it logs.  (Debug logging, which
  changes nothing else, is left out.)
\<close>

datatype log_line =
    LogHeaderDecodeError
  | LogDroppingExpired
  | LogEnvelopeDecodeError
  | LogPayloadDecodeError
  | LogUnknownMessageType

type_synonym 'p handler_call = "handler_method \<times> Envelope \<times> 'p"

definition decodeAndCall ::
  "'p json_decoder \<Rightarrow> handler_method \<Rightarrow> Envelope \<Rightarrow> 'p handler_call list \<times> log_line list" where
  "decodeAndCall j fn env =
     (case unmarshal_payload j fn (RawPayload env) of
        Inl err \<Rightarrow> ([], [LogPayloadDecodeError])
      | Inr p \<Rightarrow> ([(fn, env, p)], []))"

text \<open>The \<open>switch env.Type\<close> of \<open>HandleRaw\<close>: the method each case hands to \<open>decodeAndCall\<close>.\<close>

definition method_of_type :: "string \<Rightarrow> handler_method option" where
  "method_of_type t =
     (if t = TypeData then Some HandleData
      else if t = TypeOrderRequest then Some HandleOrderRequest
      else if t = TypeOrderCancel then Some HandleOrderCancel
      else if t = TypeOrderReceipt then Some HandleOrderReceipt
      else if t = TypeOrderRedirect then Some HandleOrderRedirect
      else if t = TypeOrderStorageWaybill then Some HandleOrderStorageWaybill
      else if t = TypeOrderAck then Some HandleOrderAck
      else if t = TypeOrderWaybill then Some HandleOrderWaybill
      else if t = TypeOrderUpdate then Some HandleOrderUpdate
      else if t = TypeOrderDelivered then Some HandleOrderDelivered
      else if t = TypeOrderError then Some HandleOrderError
      else if t = TypeOrderCancelled then Some HandleOrderCancelled
      else None)"

text \<open>
  \<open>HandleRaw\<close>, with the clock that \<open>IsExpiredHeader\<close> reads and the ingestor's
  filter (\<open>None\<close> when \<open>ing.filter == nil\<close>).
\<close>

definition HandleRaw ::
  "'p json_decoder \<Rightarrow> (RawHeader \<Rightarrow> bool) option \<Rightarrow> timestamp \<Rightarrow> bytes
     \<Rightarrow> 'p handler_call list \<times> log_line list" where
  "HandleRaw j flt now data =
     (case unmarshal_header j data of
        Inl err \<Rightarrow> ([], [LogHeaderDecodeError])
      | Inr hdr \<Rightarrow>
          if IsExpiredHeader now hdr then ([], [LogDroppingExpired])
          else if (case flt of None \<Rightarrow> False | Some f \<Rightarrow> \<not> f hdr) then ([], [])
          else
            (case unmarshal_envelope j data of
               Inl err \<Rightarrow> ([], [LogEnvelopeDecodeError])
             | Inr env \<Rightarrow>
                 (case method_of_type (Type env) of
                    Some fn \<Rightarrow> decodeAndCall j fn env
                  | None \<Rightarrow> ([], [LogUnknownMessageType]))))"

text \<open>
  The subscription callback calls \<open>HandleRaw\<close> once per message received: the
  handler calls of a sequence of messages, each with its time of arrival.
\<close>

definition handle_all ::
  "'p json_decoder \<Rightarrow> (RawHeader \<Rightarrow> bool) option \<Rightarrow> (timestamp \<times> bytes) list \<Rightarrow> 'p handler_call list" where
  "handle_all j flt msgs = concat (map (\<lambda>(now, data). fst (HandleRaw j flt now data)) msgs)"

text \<open>
  Example decoder for the scenarios below: the first byte of a message selects what
  the decoders answer.
\<close>

definition example_header :: "string \<Rightarrow> string \<Rightarrow> timestamp option \<Rightarrow> RawHeader" where
  "example_header t node expires =
     \<lparr>Type = t, MessageID = ''x'', Timestamp = 0,
      Src = \<lparr>Role = ''core'', Station = ''core-1'', Node = ''''\<rparr>,
      Dst = \<lparr>Role = ''edge'', Station = ''edge-1'', Node = node\<rparr>,
      ExpiresAt = expires\<rparr>"

definition example_envelope :: "string \<Rightarrow> string \<Rightarrow> timestamp option \<Rightarrow> Envelope" where
  "example_envelope t node expires =
     \<lparr>Type = t, MessageID = ''x'', Timestamp = 0,
      Src = \<lparr>Role = ''core'', Station = ''core-1'', Node = ''''\<rparr>,
      Dst = \<lparr>Role = ''edge'', Station = ''edge-1'', Node = node\<rparr>,
      ExpiresAt = expires, ReplyTo = '''', CorrelationID = '''', RawPayload = [9]\<rparr>"

definition example_decoder :: "nat json_decoder" where
  "example_decoder =
     \<lparr>unmarshal_header = (\<lambda>data.
        if data = [] then Inl DecodeError
        else if data = [2] then Inr (example_header ''order.ack'' ''n1'' (Some 5))
        else if data = [3] then Inr (example_header ''order.ack'' ''n2'' None)
        else if data = [5] then Inr (example_header ''order.bogus'' ''n1'' None)
        else Inr (example_header ''order.ack'' ''n1'' None)),
      unmarshal_envelope = (\<lambda>data.
        if data = [4] then Inl DecodeError
        else if data = [5] then Inr (example_envelope ''order.bogus'' ''n1'' None)
        else Inr (example_envelope ''order.ack'' ''n1'' None)),
      unmarshal_payload = (\<lambda>fn payload. if fn = HandleOrderAck then Inr 1 else Inl DecodeError)\<rparr>"

definition example_filter :: "(RawHeader \<Rightarrow> bool) option" where
  "example_filter = Some (\<lambda>hdr. Node (Dst hdr) = ''n1'' \<or> Node (Dst hdr) = ''*'')"

subsection \<open>Properties of the ingestor\<close>

lemma method_of_type_unknown: "t \<notin> set known_types \<Longrightarrow> method_of_type t = None"
  by (simp add: known_types_def method_of_type_def)

lemma method_of_type_known: "t \<in> set known_types \<Longrightarrow> method_of_type t \<noteq> None"
  by (auto simp: known_types_def method_of_type_def)

lemma HandleRaw_header_error:
  "unmarshal_header j data = Inl err \<Longrightarrow> fst (HandleRaw j flt now data) = []"
  by (simp add: HandleRaw_def)

lemma HandleRaw_expired:
  "unmarshal_header j data = Inr hdr \<Longrightarrow> IsExpiredHeader now hdr \<Longrightarrow>
     fst (HandleRaw j flt now data) = []"
  by (simp add: HandleRaw_def)

lemma HandleRaw_filtered:
  "unmarshal_header j data = Inr hdr \<Longrightarrow> flt = Some f \<Longrightarrow> \<not> f hdr \<Longrightarrow>
     fst (HandleRaw j flt now data) = []"
  by (simp add: HandleRaw_def)

lemma HandleRaw_envelope_error:
  "unmarshal_envelope j data = Inl err \<Longrightarrow> fst (HandleRaw j flt now data) = []"
  by (simp add: HandleRaw_def split: sum.splits option.splits)

lemma HandleRaw_payload_error:
  "unmarshal_envelope j data = Inr env \<Longrightarrow> method_of_type (Type env) = Some fn \<Longrightarrow>
   unmarshal_payload j fn (RawPayload env) = Inl err \<Longrightarrow>
     fst (HandleRaw j flt now data) = []"
  by (simp add: HandleRaw_def decodeAndCall_def split: sum.splits option.splits)

lemma HandleRaw_unknown_type:
  "unmarshal_envelope j data = Inr env \<Longrightarrow> Type env \<notin> set known_types \<Longrightarrow>
     fst (HandleRaw j flt now data) = []"
  by (simp add: HandleRaw_def method_of_type_unknown split: sum.splits option.splits)

lemma handle_all_append:
  "handle_all j flt (xs @ ys) = handle_all j flt xs @ handle_all j flt ys"
  by (simp add: handle_all_def)

lemma handle_all_drop:
  assumes "fst (HandleRaw j flt now data) = []"
  shows "handle_all j flt (xs @ (now, data) # ys) = handle_all j flt xs @ handle_all j flt ys"
  using assms by (simp add: handle_all_def)

lemma example_accepts:
  "HandleRaw example_decoder example_filter 10 [7] =
     ([(HandleOrderAck, example_envelope ''order.ack'' ''n1'' None, 1)], [])"
  by (simp add: HandleRaw_def example_decoder_def example_filter_def example_header_def
      example_envelope_def IsExpiredHeader_def method_of_type_def decodeAndCall_def
      TypeData_def TypeOrderRequest_def TypeOrderCancel_def TypeOrderReceipt_def
      TypeOrderRedirect_def TypeOrderStorageWaybill_def TypeOrderAck_def)

text \<open>
  C5.  For every input, \<open>HandleRaw\<close> returns without invoking any handler method
  when the header decode fails, when \<open>IsExpiredHeader\<close> holds of the decoded header,
  when the ingestor's filter answers false on the header, when the envelope decode
  fails, when the payload decode for the method of the message's type fails, and when
  the type is not one of the twelve known types.  The drop is not fatal: in a sequence
  of messages, a dropped message adds no handler call and the messages before and
  after it are handled as if it had not arrived.
\<close>

theorem HandleRaw_drops:
  "(unmarshal_header j data = Inl err \<longrightarrow> fst (HandleRaw j flt now data) = [])
   \<and> (unmarshal_header j data = Inr hdr \<and> IsExpiredHeader now hdr \<longrightarrow>
        fst (HandleRaw j flt now data) = [])
   \<and> (unmarshal_header j data = Inr hdr \<and> flt = Some f \<and> \<not> f hdr \<longrightarrow>
        fst (HandleRaw j flt now data) = [])
   \<and> (unmarshal_envelope j data = Inl err \<longrightarrow> fst (HandleRaw j flt now data) = [])
   \<and> (unmarshal_envelope j data = Inr env \<and> method_of_type (Type env) = Some fn
        \<and> unmarshal_payload j fn (RawPayload env) = Inl err \<longrightarrow>
        fst (HandleRaw j flt now data) = [])
   \<and> (unmarshal_envelope j data = Inr env \<and> Type env \<notin> set known_types \<longrightarrow>
        fst (HandleRaw j flt now data) = [])
   \<and> (fst (HandleRaw j flt now data) = [] \<longrightarrow>
        handle_all j flt (before @ (now, data) # after) =
          handle_all j flt before @ handle_all j flt after)"
proof (intro conjI impI)
  assume "unmarshal_header j data = Inl err"
  then show "fst (HandleRaw j flt now data) = []" by (rule HandleRaw_header_error)
next
  assume "unmarshal_header j data = Inr hdr \<and> IsExpiredHeader now hdr"
  then show "fst (HandleRaw j flt now data) = []" by (simp add: HandleRaw_expired)
next
  assume "unmarshal_header j data = Inr hdr \<and> flt = Some f \<and> \<not> f hdr"
  then show "fst (HandleRaw j flt now data) = []"
    using HandleRaw_filtered [of j data hdr flt f now] by simp
next
  assume "unmarshal_envelope j data = Inl err"
  then show "fst (HandleRaw j flt now data) = []" by (rule HandleRaw_envelope_error)
next
  assume "unmarshal_envelope j data = Inr env \<and> method_of_type (Type env) = Some fn
        \<and> unmarshal_payload j fn (RawPayload env) = Inl err"
  then show "fst (HandleRaw j flt now data) = []"
    using HandleRaw_payload_error [of j data env fn err flt now] by simp
next
  assume "unmarshal_envelope j data = Inr env \<and> Type env \<notin> set known_types"
  then show "fst (HandleRaw j flt now data) = []"
    using HandleRaw_unknown_type [of j data env flt now] by simp
next
  assume "fst (HandleRaw j flt now data) = []"
  then show "handle_all j flt (before @ (now, data) # after) =
          handle_all j flt before @ handle_all j flt after"
    by (rule handle_all_drop)
qed

theorem HandleRaw_drops_witness:
  "unmarshal_header example_decoder [] = Inl DecodeError
   \<and> fst (HandleRaw example_decoder example_filter 10 []) = []
   \<and> IsExpiredHeader 10 (example_header ''order.ack'' ''n1'' (Some 5))
   \<and> fst (HandleRaw example_decoder example_filter 10 [2]) = []
   \<and> fst (HandleRaw example_decoder example_filter 10 [3]) = []
   \<and> unmarshal_envelope example_decoder [4] = Inl DecodeError
   \<and> fst (HandleRaw example_decoder example_filter 10 [4]) = []
   \<and> ''order.bogus'' \<notin> set known_types
   \<and> fst (HandleRaw example_decoder example_filter 10 [5]) = []
   \<and> method_of_type ''order.ack'' = Some HandleOrderAck
   \<and> fst (HandleRaw (example_decoder\<lparr>unmarshal_payload := \<lambda>fn payload. Inl DecodeError\<rparr>)
            example_filter 10 [7]) = []
   \<and> handle_all example_decoder example_filter [(10, [7]), (10, [2]), (11, [7])] =
       [(HandleOrderAck, example_envelope ''order.ack'' ''n1'' None, 1),
        (HandleOrderAck, example_envelope ''order.ack'' ''n1'' None, 1)]"
proof -
  let ?j = example_decoder
  let ?bad = "example_decoder\<lparr>unmarshal_payload := \<lambda>fn payload. Inl DecodeError\<rparr>"
  have h1: "unmarshal_header ?j [] = Inl DecodeError"
    and h2: "unmarshal_header ?j [2] = Inr (example_header ''order.ack'' ''n1'' (Some 5))"
    and h3: "unmarshal_header ?j [3] = Inr (example_header ''order.ack'' ''n2'' None)"
    and e4: "unmarshal_envelope ?j [4] = Inl DecodeError"
    and e5: "unmarshal_envelope ?j [5] = Inr (example_envelope ''order.bogus'' ''n1'' None)"
    and e7: "unmarshal_envelope ?bad [7] = Inr (example_envelope ''order.ack'' ''n1'' None)"
    and p7: "unmarshal_payload ?bad HandleOrderAck
               (RawPayload (example_envelope ''order.ack'' ''n1'' None)) = Inl DecodeError"
    by (simp_all add: example_decoder_def)
  have ex: "IsExpiredHeader 10 (example_header ''order.ack'' ''n1'' (Some 5))"
    by (simp add: IsExpiredHeader_def example_header_def)
  have fl: "example_filter = Some (\<lambda>hdr. Node (Dst hdr) = ''n1'' \<or> Node (Dst hdr) = ''*'')"
    and nf: "\<not> (\<lambda>hdr. Node (Dst hdr) = ''n1'' \<or> Node (Dst hdr) = ''*'')
                 (example_header ''order.ack'' ''n2'' None)"
    by (simp_all add: example_filter_def example_header_def)
  have ty: "Type (example_envelope ''order.bogus'' ''n1'' None) \<notin> set known_types"
    and tb: "''order.bogus'' \<notin> set known_types"
    by (simp_all add: example_envelope_def known_types_def
      TypeData_def TypeOrderRequest_def TypeOrderCancel_def TypeOrderReceipt_def
      TypeOrderRedirect_def TypeOrderStorageWaybill_def TypeOrderAck_def TypeOrderWaybill_def
      TypeOrderUpdate_def TypeOrderDelivered_def TypeOrderError_def TypeOrderCancelled_def)
  have mt: "method_of_type ''order.ack'' = Some HandleOrderAck"
    and mt': "method_of_type (Type (example_envelope ''order.ack'' ''n1'' None)) = Some HandleOrderAck"
    by (simp_all add: example_envelope_def method_of_type_def
      TypeData_def TypeOrderRequest_def TypeOrderCancel_def TypeOrderReceipt_def
      TypeOrderRedirect_def TypeOrderStorageWaybill_def TypeOrderAck_def)
  have c1: "fst (HandleRaw ?j example_filter 10 []) = []"
    using HandleRaw_drops [where j = ?j and data = "[]" and err = DecodeError
        and flt = example_filter and now = 10] h1 by simp
  have c2: "fst (HandleRaw ?j example_filter 10 [2]) = []"
    using HandleRaw_drops [where j = ?j and data = "[2]" and flt = example_filter and now = 10
        and hdr = "example_header ''order.ack'' ''n1'' (Some 5)"] h2 ex by simp
  have c3: "fst (HandleRaw ?j example_filter 10 [3]) = []"
    using HandleRaw_drops [where j = ?j and data = "[3]" and flt = example_filter and now = 10
        and hdr = "example_header ''order.ack'' ''n2'' None"
        and f = "\<lambda>hdr. Node (Dst hdr) = ''n1'' \<or> Node (Dst hdr) = ''*''"] h3 fl nf by simp
  have c4: "fst (HandleRaw ?j example_filter 10 [4]) = []"
    using HandleRaw_drops [where j = ?j and data = "[4]" and err = DecodeError
        and flt = example_filter and now = 10] e4 by simp
  have c5: "fst (HandleRaw ?j example_filter 10 [5]) = []"
    using HandleRaw_drops [where j = ?j and data = "[5]" and flt = example_filter and now = 10
        and env = "example_envelope ''order.bogus'' ''n1'' None"] e5 ty by simp
  have c6: "fst (HandleRaw ?bad example_filter 10 [7]) = []"
    using HandleRaw_drops [where j = ?bad and data = "[7]" and flt = example_filter and now = 10
        and env = "example_envelope ''order.ack'' ''n1'' None" and fn = HandleOrderAck
        and err = DecodeError] e7 p7 mt' by simp
  have c7: "handle_all ?j example_filter ([(10, [7])] @ (10, [2]) # [(11, [7])]) =
       handle_all ?j example_filter [(10, [7])] @ handle_all ?j example_filter [(11, [7])]"
    using HandleRaw_drops [where j = ?j and data = "[2]" and flt = example_filter and now = 10
        and before = "[(10, [7])]" and after = "[(11, [7])]"] c2 by simp
  have a7: "fst (HandleRaw ?j example_filter 11 [7]) =
              [(HandleOrderAck, example_envelope ''order.ack'' ''n1'' None, 1)]"
    by (simp add: HandleRaw_def example_decoder_def example_filter_def example_header_def
      example_envelope_def IsExpiredHeader_def method_of_type_def decodeAndCall_def
      TypeData_def TypeOrderRequest_def TypeOrderCancel_def TypeOrderReceipt_def
      TypeOrderRedirect_def TypeOrderStorageWaybill_def TypeOrderAck_def)
  have c8: "handle_all ?j example_filter [(10, [7]), (10, [2]), (11, [7])] =
       [(HandleOrderAck, example_envelope ''order.ack'' ''n1'' None, 1),
        (HandleOrderAck, example_envelope ''order.ack'' ''n1'' None, 1)]"
    using c7 by (simp add: handle_all_def example_accepts a7)
  from h1 ex e4 tb mt c1 c2 c3 c4 c5 c6 c8 show ?thesis by simp
qed

section \<open>Hourly tracker (shingo-edge/engine/hourly_tracker.go, events.go, store)\<close>

record CounterDeltaEvent =
  ReportingPointID :: int64
  LineID :: int64
  JobStyleID :: int64
  Delta :: int64
  NewCount :: int64
  Anomaly :: string

text \<open>
  Modelled from the spec: the table \<open>hourly_counts\<close> (its DDL is not under src/) has a
  unique constraint on \<open>(line_id, job_style_id, count_date, hour)\<close>, so it is a map
  from that key to the row's \<open>delta\<close>.  \<open>HourlyCount.Delta\<close> reads the column as an
  \<open>int64\<close>: it is taken to be declared INTEGER.  The store is SQLite, where a value
  of such a column is an INTEGER, 64 bits signed, or, once a sum has left that range, a
  REAL: an IEEE double.  The doubles that arise here are sums of whole numbers, so they
  are whole numbers or infinite.
\<close>

datatype sql_real = Finite int | PlusInfinity | MinusInfinity

datatype sql_num = SqlInteger int64 | SqlReal sql_real

type_synonym bucket_key = "int \<times> int \<times> string \<times> int"

type_synonym hourly_counts = "bucket_key \<rightharpoonup> sql_num"

text \<open>
  The double nearest to a whole number: 53 significant bits, a tie goes to the even
  significand.  \<open>bit_length\<close> is the number of bits of a natural number.
\<close>

fun bit_length :: "nat \<Rightarrow> nat" where
  "bit_length n = (if n = 0 then 0 else Suc (bit_length (n div 2)))"

definition round53 :: "int \<Rightarrow> int" where
  "round53 x =
     (let a = nat \<bar>x\<bar>; n = bit_length a in
      if n \<le> 53 then x
      else
        (let q = 2 ^ (n - 53); m = a div q; r = a mod q;
             m1 = (if q < 2 * r \<or> (2 * r = q \<and> odd m) then m + 1 else m)
         in sgn x * int (m1 * q)))"

text \<open>The result of a double operation whose exact value is \<open>x\<close>; \<open>2^1024\<close> is out of range.\<close>

definition double_of :: "int \<Rightarrow> sql_real" where
  "double_of x =
     (let y = round53 x in
      if 2 ^ 1024 \<le> y then PlusInfinity
      else if y \<le> - (2 ^ 1024) then MinusInfinity
      else Finite y)"

text \<open>
  \<open>rB += rA\<close> in SQLite's addition on doubles, the right operand being the double of
  an \<open>int64\<close>.
\<close>

fun real_plus :: "sql_real \<Rightarrow> int64 \<Rightarrow> sql_real" where
  "real_plus (Finite a) d = double_of (a + round53 (sint d))"
| "real_plus PlusInfinity d = PlusInfinity"
| "real_plus MinusInfinity d = MinusInfinity"

text \<open>
  Storing a REAL in a column of INTEGER affinity: it becomes an INTEGER when it is a
  whole number strictly between the smallest and the largest \<open>int64\<close>.
\<close>

fun integer_affinity :: "sql_real \<Rightarrow> sql_num" where
  "integer_affinity (Finite r) =
     (if - (2 ^ 63) < r \<and> r < 2 ^ 63 - 1 then SqlInteger (word_of_int r) else SqlReal (Finite r))"
| "integer_affinity PlusInfinity = SqlReal PlusInfinity"
| "integer_affinity MinusInfinity = SqlReal MinusInfinity"

text \<open>
  \<open>delta + excluded.delta\<close>, the right operand being the \<open>int64\<close> bound to the
  statement.  Two INTEGERs add exactly when the sum fits 64 bits; when it does not,
  and when the stored value is a REAL already, both operands are taken as doubles and
  the sum is a double.
\<close>

definition fits_int64 :: "int \<Rightarrow> bool" where
  "fits_int64 x \<longleftrightarrow> - (2 ^ 63) \<le> x \<and> x < 2 ^ 63"

fun sql_add :: "sql_num \<Rightarrow> int64 \<Rightarrow> sql_num" where
  "sql_add (SqlInteger a) d =
     (if fits_int64 (sint a + sint d) then SqlInteger (a + d)
      else integer_affinity (real_plus (Finite (round53 (sint a))) d))"
| "sql_add (SqlReal r) d = integer_affinity (real_plus r d)"

text \<open>
  \<open>INSERT INTO hourly_counts (line_id, job_style_id, count_date, hour, delta)
   VALUES (?, ?, ?, ?, ?) ON CONFLICT(line_id, job_style_id, count_date, hour)
   DO UPDATE SET delta = delta + excluded.delta, ...\<close>
\<close>

definition UpsertHourlyCount ::
  "hourly_counts \<Rightarrow> int \<Rightarrow> int \<Rightarrow> string \<Rightarrow> int \<Rightarrow> int64 \<Rightarrow> hourly_counts" where
  "UpsertHourlyCount tbl lineID jobStyleID countDate hour delta =
     tbl((lineID, jobStyleID, countDate, hour) \<mapsto>
       (case tbl (lineID, jobStyleID, countDate, hour) of
          None \<Rightarrow> SqlInteger delta
        | Some old \<Rightarrow> sql_add old delta))"

text \<open>
  What the world answers during one call of \<open>HandleDelta\<close>: the date and the hour
  of \<open>time.Now().In(ht.loc)\<close>, and whether the upsert returns an error (which
  \<open>HandleDelta\<close> only logs; the table then stays as it was).
\<close>

record tracker_env =
  now_date :: string
  now_hour :: int
  upsert_err :: bool

definition HandleDelta :: "tracker_env \<Rightarrow> hourly_counts \<Rightarrow> CounterDeltaEvent \<Rightarrow> hourly_counts" where
  "HandleDelta w tbl ev =
     (if LineID ev = 0 \<or> JobStyleID ev = 0 then tbl
      else if Anomaly ev = ''reset'' then tbl
      else
        (let countDate = now_date w; hour = now_hour w in
         if upsert_err w then tbl
         else UpsertHourlyCount tbl (sint (LineID ev)) (sint (JobStyleID ev)) countDate hour
                (Delta ev)))"

text \<open>A sequence of events, each with the world at the time it is handled.\<close>

definition handle_deltas ::
  "hourly_counts \<Rightarrow> (tracker_env \<times> CounterDeltaEvent) list \<Rightarrow> hourly_counts" where
  "handle_deltas tbl evs = foldl (\<lambda>t (w, ev). HandleDelta w t ev) tbl evs"

text \<open>The stored delta of a bucket; a bucket without a row holds nothing.\<close>

definition bucket_delta :: "hourly_counts \<Rightarrow> bucket_key \<Rightarrow> sql_num" where
  "bucket_delta tbl key = (case tbl key of None \<Rightarrow> SqlInteger 0 | Some v \<Rightarrow> v)"

text \<open>The bucket an event falls in, and the three tests of \<open>HandleDelta\<close>.\<close>

definition bucket_of :: "tracker_env \<Rightarrow> CounterDeltaEvent \<Rightarrow> bucket_key" where
  "bucket_of w ev = (sint (LineID ev), sint (JobStyleID ev), now_date w, now_hour w)"

definition counted :: "CounterDeltaEvent \<Rightarrow> bool" where
  "counted ev \<longleftrightarrow> LineID ev \<noteq> 0 \<and> JobStyleID ev \<noteq> 0 \<and> Anomaly ev \<noteq> ''reset''"

text \<open>
  The events whose delta reaches the bucket \<open>key\<close>: they pass the three tests, fall in
  the bucket, and their upsert is carried out.
\<close>

definition reaches :: "bucket_key \<Rightarrow> tracker_env \<times> CounterDeltaEvent \<Rightarrow> bool" where
  "reaches key x \<longleftrightarrow>
     counted (snd x) \<and> \<not> upsert_err (fst x) \<and> bucket_of (fst x) (snd x) = key"

text \<open>Every running sum of \<open>ds\<close>, started at \<open>s\<close>, fits an \<open>int64\<close>.\<close>

fun sums_fit :: "int \<Rightarrow> int list \<Rightarrow> bool" where
  "sums_fit s [] = True"
| "sums_fit s (d # ds) = (fits_int64 (s + d) \<and> sums_fit (s + d) ds)"

text \<open>Example events for the scenarios below.\<close>

definition example_event :: "int64 \<Rightarrow> string \<Rightarrow> CounterDeltaEvent" where
  "example_event d a =
     \<lparr>ReportingPointID = 7, LineID = 1, JobStyleID = 2, Delta = d, NewCount = 100, Anomaly = a\<rparr>"

definition example_hour :: "bool \<Rightarrow> tracker_env" where
  "example_hour failing = \<lparr>now_date = ''2024-06-01'', now_hour = 14, upsert_err = failing\<rparr>"

subsection \<open>Properties of the hourly tracker\<close>

declare bit_length.simps [simp del]

lemma bit_length_bounds: "2 ^ k \<le> n \<Longrightarrow> n < 2 ^ Suc k \<Longrightarrow> bit_length n = Suc k"
proof (induction k arbitrary: n)
  case 0
  then have "n = 1" by simp
  then show ?case by (simp add: bit_length.simps)
next
  case (Suc k)
  from Suc.prems have a: "2 ^ k \<le> n div 2" and b: "n div 2 < 2 ^ Suc k" and c: "n \<noteq> 0"
    by auto
  have "bit_length n = Suc (bit_length (n div 2))"
    using c by (subst bit_length.simps) simp
  also have "bit_length (n div 2) = Suc k"
    using a b by (rule Suc.IH)
  finally show ?case .
qed

lemma bit_length_small: "n < 2 ^ k \<Longrightarrow> bit_length n \<le> k"
proof (induction k arbitrary: n)
  case 0
  then show ?case by (simp add: bit_length.simps)
next
  case (Suc k)
  show ?case
  proof (cases "n = 0")
    case True
    then show ?thesis by (simp add: bit_length.simps)
  next
    case False
    from Suc.prems have "n div 2 < 2 ^ k" by auto
    then have "bit_length (n div 2) \<le> k" by (rule Suc.IH)
    moreover have "bit_length n = Suc (bit_length (n div 2))"
      using False by (subst bit_length.simps) simp
    ultimately show ?thesis by simp
  qed
qed

lemma round53_small: "\<bar>x\<bar> < 2 ^ 53 \<Longrightarrow> round53 x = x"
proof -
  assume "\<bar>x\<bar> < 2 ^ 53"
  then have "nat \<bar>x\<bar> < 2 ^ 53" by simp
  then have "bit_length (nat \<bar>x\<bar>) \<le> 53" by (rule bit_length_small)
  then show ?thesis by (simp add: round53_def Let_def)
qed

lemma bit_length_max: "bit_length 9223372036854775807 = 63"
  by (rule bit_length_bounds [of 62, simplified]) simp_all

lemma round53_max: "round53 9223372036854775807 = 9223372036854775808"
  by (simp add: round53_def bit_length_max Let_def)

lemma bit_length_sum: "bit_length 18446744073709551616 = 65"
  by (rule bit_length_bounds [of 64, simplified]) simp_all

lemma round53_sum: "round53 18446744073709551616 = 18446744073709551616"
  by (simp add: round53_def bit_length_sum Let_def)

lemma sql_add_max:
  "sql_add (SqlInteger 9223372036854775807) 9223372036854775807 =
     SqlReal (Finite 18446744073709551616)"
  by (simp add: fits_int64_def round53_max double_of_def round53_sum Let_def)

lemma sint_add_fits:
  fixes a d :: int64
  assumes "fits_int64 (sint a + sint d)"
  shows "sint (a + d) = sint a + sint d"
proof -
  let ?v = "sint a + sint d"
  have "a + d = word_of_int ?v" by simp
  then have "sint (a + d) = signed_take_bit 63 ?v"
    by (simp only: sint_sbintrunc') simp
  also have "\<dots> = ?v"
    using assms by (simp add: fits_int64_def signed_take_bit_int_eq_self)
  finally show ?thesis .
qed

lemma HandleDelta_dropped: "\<not> counted ev \<Longrightarrow> HandleDelta w tbl ev = tbl"
  by (auto simp: counted_def HandleDelta_def)

lemma HandleDelta_failed: "upsert_err w \<Longrightarrow> HandleDelta w tbl ev = tbl"
  by (simp add: HandleDelta_def Let_def)

lemma HandleDelta_upsert:
  assumes "counted ev" "\<not> upsert_err w"
  shows "HandleDelta w tbl ev =
      UpsertHourlyCount tbl (sint (LineID ev)) (sint (JobStyleID ev)) (now_date w) (now_hour w)
        (Delta ev)"
  using assms by (simp add: HandleDelta_def counted_def Let_def)

lemma bucket_delta_upsert_other:
  "key \<noteq> (l, s, d, h) \<Longrightarrow> bucket_delta (UpsertHourlyCount tbl l s d h x) key = bucket_delta tbl key"
  by (simp add: bucket_delta_def UpsertHourlyCount_def)

lemma bucket_delta_upsert_same:
  assumes "bucket_delta tbl (l, s, d, h) = SqlInteger v" and "fits_int64 (sint v + sint x)"
  shows "bucket_delta (UpsertHourlyCount tbl l s d h x) (l, s, d, h) = SqlInteger (v + x)"
  using assms by (simp add: bucket_delta_def UpsertHourlyCount_def split: option.splits)

lemma bucket_delta_not_reached:
  assumes "\<not> reaches key (w, ev)"
  shows "bucket_delta (HandleDelta w tbl ev) key = bucket_delta tbl key"
proof (cases "counted ev \<and> \<not> upsert_err w")
  case True
  with assms have "key \<noteq> (sint (LineID ev), sint (JobStyleID ev), now_date w, now_hour w)"
    by (auto simp: reaches_def bucket_of_def)
  with True show ?thesis
    by (simp add: HandleDelta_upsert bucket_delta_upsert_other)
next
  case False
  then have "HandleDelta w tbl ev = tbl"
    using HandleDelta_dropped HandleDelta_failed by blast
  then show ?thesis by simp
qed

lemma bucket_delta_reached:
  assumes "reaches key (w, ev)" and "bucket_delta tbl key = SqlInteger v"
    and "fits_int64 (sint v + sint (Delta ev))"
  shows "bucket_delta (HandleDelta w tbl ev) key = SqlInteger (v + Delta ev)"
proof -
  from assms(1) have c: "counted ev" "\<not> upsert_err w"
    and k: "key = (sint (LineID ev), sint (JobStyleID ev), now_date w, now_hour w)"
    by (auto simp: reaches_def bucket_of_def)
  show ?thesis
    using assms(2,3) unfolding k HandleDelta_upsert [OF c]
    by (rule bucket_delta_upsert_same)
qed

lemma bucket_delta_handle_deltas:
  assumes "bucket_delta tbl key = SqlInteger v"
    and "sums_fit (sint v) (map (\<lambda>x. sint (Delta (snd x))) (filter (reaches key) evs))"
  shows "bucket_delta (handle_deltas tbl evs) key =
           SqlInteger (v + word_of_int (\<Sum>x \<leftarrow> filter (reaches key) evs. sint (Delta (snd x))))
         \<and> sint (v + word_of_int (\<Sum>x \<leftarrow> filter (reaches key) evs. sint (Delta (snd x))) :: int64) =
             sint v + (\<Sum>x \<leftarrow> filter (reaches key) evs. sint (Delta (snd x)))"
  using assms
proof (induction evs arbitrary: tbl v)
  case Nil
  then show ?case by (simp add: handle_deltas_def)
next
  case (Cons x evs)
  obtain w ev where x: "x = (w, ev)" by (cases x)
  have step: "handle_deltas tbl ((w, ev) # evs) = handle_deltas (HandleDelta w tbl ev) evs"
    by (simp add: handle_deltas_def)
  show ?case
  proof (cases "reaches key (w, ev)")
    case False
    then have "bucket_delta (HandleDelta w tbl ev) key = SqlInteger v"
      using Cons.prems(1) by (simp add: bucket_delta_not_reached)
    moreover have "sums_fit (sint v) (map (\<lambda>x. sint (Delta (snd x))) (filter (reaches key) evs))"
      using Cons.prems(2) False by (simp add: x)
    ultimately show ?thesis
      using Cons.IH [of "HandleDelta w tbl ev" v] False by (simp add: x step)
  next
    case True
    let ?rest = "\<Sum>x \<leftarrow> filter (reaches key) evs. sint (Delta (snd x))"
    from Cons.prems(2) True have f: "fits_int64 (sint v + sint (Delta ev))"
      and r: "sums_fit (sint v + sint (Delta ev))
                (map (\<lambda>x. sint (Delta (snd x))) (filter (reaches key) evs))"
      by (simp_all add: x)
    have e: "sint (v + Delta ev) = sint v + sint (Delta ev)"
      using f by (rule sint_add_fits)
    have b: "bucket_delta (HandleDelta w tbl ev) key = SqlInteger (v + Delta ev)"
      using True Cons.prems(1) f by (rule bucket_delta_reached)
    from r e have "sums_fit (sint (v + Delta ev))
                (map (\<lambda>x. sint (Delta (snd x))) (filter (reaches key) evs))"
      by simp
    from Cons.IH [OF b this]
    have ih: "bucket_delta (handle_deltas (HandleDelta w tbl ev) evs) key =
                SqlInteger (v + Delta ev + word_of_int ?rest)"
      and ihs: "sint (v + Delta ev + word_of_int ?rest) = sint (v + Delta ev) + ?rest"
      by simp_all
    have w: "v + word_of_int (sint (Delta ev) + ?rest) = v + Delta ev + word_of_int ?rest"
      by simp
    from ih ihs e True show ?thesis
      by (simp add: x step w del: of_int_add)
  qed
qed

lemma reaches_tests:
  "reaches key = (\<lambda>(w, ev). LineID ev \<noteq> 0 \<and> JobStyleID ev \<noteq> 0 \<and> Anomaly ev \<noteq> ''reset''
                        \<and> \<not> upsert_err w \<and> bucket_of w ev = key)"
  by (rule ext) (auto simp: reaches_def counted_def)

lemma example_bucket: "bucket_of (example_hour f) (example_event d a) = (1, 2, ''2024-06-01'', 14)"
  by (simp add: bucket_of_def example_hour_def example_event_def)

lemma example_overflow:
  "bucket_delta (handle_deltas Map.empty
      [(example_hour False, example_event 9223372036854775807 ''''),
       (example_hour False, example_event 9223372036854775807 '''')]) (1, 2, ''2024-06-01'', 14) =
     SqlReal (Finite 18446744073709551616)"
  by (simp add: handle_deltas_def HandleDelta_def example_hour_def example_event_def
      UpsertHourlyCount_def bucket_delta_def sql_add_max del: sql_add.simps)

lemma example_lost:
  "bucket_delta (handle_deltas Map.empty
      [(example_hour False, example_event 10 ''''), (example_hour True, example_event 5 '''')])
     (1, 2, ''2024-06-01'', 14) = SqlInteger 10"
  by (simp add: handle_deltas_def HandleDelta_def example_hour_def example_event_def
      UpsertHourlyCount_def bucket_delta_def)

text \<open>
  C6, as amended.  Fix a bucket key \<open>(line_id, job_style_id, count_date, hour)\<close>.
  After the tracker has handled any sequence of events, the stored delta of the bucket
  is the INTEGER it held before plus the sum of the \<open>Delta\<close> fields of exactly those
  events that fall in the bucket, have \<open>LineID \<noteq> 0\<close>, \<open>JobStyleID \<noteq> 0\<close> and
  \<open>Anomaly \<noteq> "reset"\<close>, and whose upsert the store carried out, as long as every
  running sum fits an \<open>int64\<close>; from an empty table it is that sum.  An event that
  fails one of the three tests leaves the table unchanged, and so does an event whose
  upsert returns an error.
\<close>

theorem hourly_bucket_sum:
  "(bucket_delta tbl key = SqlInteger v
    \<and> sums_fit (sint v)
         (map (\<lambda>(w, ev). sint (Delta ev))
            (filter (\<lambda>(w, ev). LineID ev \<noteq> 0 \<and> JobStyleID ev \<noteq> 0 \<and> Anomaly ev \<noteq> ''reset''
                               \<and> \<not> upsert_err w \<and> bucket_of w ev = key) evs)) \<longrightarrow>
       bucket_delta (handle_deltas tbl evs) key =
         SqlInteger (v + word_of_int
           (\<Sum>(w, ev) \<leftarrow> filter (\<lambda>(w, ev). LineID ev \<noteq> 0 \<and> JobStyleID ev \<noteq> 0
                                   \<and> Anomaly ev \<noteq> ''reset''
                                   \<and> \<not> upsert_err w \<and> bucket_of w ev = key) evs.
              sint (Delta ev)))
       \<and> sint (v + word_of_int
           (\<Sum>(w, ev) \<leftarrow> filter (\<lambda>(w, ev). LineID ev \<noteq> 0 \<and> JobStyleID ev \<noteq> 0
                                   \<and> Anomaly ev \<noteq> ''reset''
                                   \<and> \<not> upsert_err w \<and> bucket_of w ev = key) evs.
              sint (Delta ev)) :: int64) =
           sint v
           + (\<Sum>(w, ev) \<leftarrow> filter (\<lambda>(w, ev). LineID ev \<noteq> 0 \<and> JobStyleID ev \<noteq> 0
                                   \<and> Anomaly ev \<noteq> ''reset''
                                   \<and> \<not> upsert_err w \<and> bucket_of w ev = key) evs.
                sint (Delta ev)))
   \<and> (LineID ev = 0 \<or> JobStyleID ev = 0 \<or> Anomaly ev = ''reset'' \<longrightarrow>
        HandleDelta w tbl ev = tbl)
   \<and> (upsert_err w \<longrightarrow> HandleDelta w tbl ev = tbl)
   \<and> bucket_delta Map.empty key = SqlInteger 0"
proof -
  let ?P = "\<lambda>(w, ev). LineID ev \<noteq> 0 \<and> JobStyleID ev \<noteq> 0 \<and> Anomaly ev \<noteq> ''reset''
                               \<and> \<not> upsert_err w \<and> bucket_of w ev = key"
  let ?total = "\<Sum>(w, ev) \<leftarrow> filter ?P evs. sint (Delta ev)"
  have p: "reaches key = ?P" by (rule reaches_tests)
  have m: "(\<lambda>(w :: tracker_env, ev). sint (Delta ev)) = (\<lambda>x. sint (Delta (snd x)))"
    by (simp add: split_def)
  have a: "bucket_delta (handle_deltas tbl evs) key = SqlInteger (v + word_of_int ?total)
           \<and> sint (v + word_of_int ?total :: int64) = sint v + ?total"
    if "bucket_delta tbl key = SqlInteger v
        \<and> sums_fit (sint v) (map (\<lambda>(w, ev). sint (Delta ev)) (filter ?P evs))"
    using bucket_delta_handle_deltas [of tbl key v evs] that unfolding p m by blast
  have b: "HandleDelta w tbl ev = tbl"
    if "LineID ev = 0 \<or> JobStyleID ev = 0 \<or> Anomaly ev = ''reset''"
  proof -
    from that have "\<not> counted ev" by (auto simp: counted_def)
    then show ?thesis by (rule HandleDelta_dropped)
  qed
  have c: "HandleDelta w tbl ev = tbl" if "upsert_err w"
    using that by (rule HandleDelta_failed)
  have d: "bucket_delta Map.empty key = SqlInteger 0" by (simp add: bucket_delta_def)
  from a b c d show ?thesis by blast
qed

theorem hourly_bucket_sum_witness:
  "bucket_delta Map.empty (1, 2, ''2024-06-01'', 14) = SqlInteger 0
   \<and> sums_fit 0 [10, 5]
   \<and> bucket_delta (handle_deltas Map.empty
        [(example_hour False, example_event 10 ''''), (example_hour False, example_event 7 ''reset''),
         (example_hour True, example_event 3 ''''), (example_hour False, example_event 5 ''jump'')])
        (1, 2, ''2024-06-01'', 14) = SqlInteger 15
   \<and> Anomaly (example_event 7 ''reset'') = ''reset''
   \<and> HandleDelta (example_hour False) [(1, 2, ''2024-06-01'', 14) \<mapsto> SqlInteger 10]
        (example_event 7 ''reset'') = [(1, 2, ''2024-06-01'', 14) \<mapsto> SqlInteger 10]
   \<and> upsert_err (example_hour True)
   \<and> HandleDelta (example_hour True) [(1, 2, ''2024-06-01'', 14) \<mapsto> SqlInteger 10]
        (example_event 3 '''') = [(1, 2, ''2024-06-01'', 14) \<mapsto> SqlInteger 10]"
proof -
  let ?evs = "[(example_hour False, example_event 10 ''''),
         (example_hour False, example_event 7 ''reset''),
         (example_hour True, example_event 3 ''''), (example_hour False, example_event 5 ''jump'')]"
  let ?key = "(1 :: int, 2 :: int, ''2024-06-01'', 14 :: int)"
  let ?P = "\<lambda>(w, ev). LineID ev \<noteq> 0 \<and> JobStyleID ev \<noteq> 0 \<and> Anomaly ev \<noteq> ''reset''
                               \<and> \<not> upsert_err w \<and> bucket_of w ev = ?key"
  have f: "filter ?P ?evs =
      [(example_hour False, example_event 10 ''''), (example_hour False, example_event 5 ''jump'')]"
    by (simp add: example_bucket) (simp add: example_hour_def example_event_def)
  have z: "bucket_delta Map.empty ?key = SqlInteger 0" by (simp add: bucket_delta_def)
  have s: "sums_fit 0 [10, 5]" by (simp add: fits_int64_def)
  have e: "upsert_err (example_hour True)" by (simp add: example_hour_def)
  have r: "Anomaly (example_event 7 ''reset'') = ''reset''" by (simp add: example_event_def)
  note a = hourly_bucket_sum [where evs = ?evs and key = ?key and tbl = Map.empty and v = 0
      and ev = "example_event 7 ''reset''" and w = "example_hour False"]
  note b = hourly_bucket_sum [where evs = ?evs and key = ?key
      and tbl = "[(1, 2, ''2024-06-01'', 14) \<mapsto> SqlInteger 10]" and v = 10
      and ev = "example_event 7 ''reset''" and w = "example_hour False"]
  note c = hourly_bucket_sum [where evs = ?evs and key = ?key
      and tbl = "[(1, 2, ''2024-06-01'', 14) \<mapsto> SqlInteger 10]" and v = 10
      and ev = "example_event 3 ''''" and w = "example_hour True"]
  have "sums_fit (sint (0 :: int64)) (map (\<lambda>(w, ev). sint (Delta ev)) (filter ?P ?evs))"
    unfolding f using s by (simp add: example_event_def)
  with a z have "bucket_delta (handle_deltas Map.empty ?evs) ?key =
         SqlInteger (0 + word_of_int (\<Sum>(w, ev) \<leftarrow> filter ?P ?evs. sint (Delta ev)))"
    by blast
  then have c1: "bucket_delta (handle_deltas Map.empty ?evs) ?key = SqlInteger 15"
    unfolding f by (simp add: example_event_def)
  from b r have c2: "HandleDelta (example_hour False) [(1, 2, ''2024-06-01'', 14) \<mapsto> SqlInteger 10]
      (example_event 7 ''reset'') = [(1, 2, ''2024-06-01'', 14) \<mapsto> SqlInteger 10]"
    by blast
  from c e have c3: "HandleDelta (example_hour True) [(1, 2, ''2024-06-01'', 14) \<mapsto> SqlInteger 10]
      (example_event 3 '''') = [(1, 2, ''2024-06-01'', 14) \<mapsto> SqlInteger 10]"
    by blast
  from z s c1 r c2 e c3 show ?thesis by simp
qed

text \<open>
  C6 as stated fails in two ways.  An event that passes the three tests but whose
  upsert returns an error is logged and lost: after a delta of 10 that is stored and a
  delta of 5 whose upsert fails, both in the bucket, the bucket holds 10 while the sum
  of the \<open>Delta\<close> fields is 15.  And two events with \<open>Delta = 2^63 - 1\<close> leave the
  bucket with the REAL \<open>2^64\<close>, not with the sum \<open>2^64 - 2\<close>: the INTEGER addition
  overflows and SQLite adds the two numbers as doubles.
\<close>

theorem hourly_bucket_sum_fails:
  "bucket_of (example_hour False) (example_event 10 '''') = (1, 2, ''2024-06-01'', 14)
   \<and> bucket_of (example_hour True) (example_event 5 '''') = (1, 2, ''2024-06-01'', 14)
   \<and> counted (example_event 10 '''') \<and> counted (example_event 5 '''')
   \<and> sint (Delta (example_event 10 '''')) + sint (Delta (example_event 5 '''')) = 15
   \<and> bucket_delta (handle_deltas Map.empty
        [(example_hour False, example_event 10 ''''), (example_hour True, example_event 5 '''')])
        (1, 2, ''2024-06-01'', 14) = SqlInteger 10
   \<and> bucket_of (example_hour False) (example_event 9223372036854775807 '''') =
        (1, 2, ''2024-06-01'', 14)
   \<and> counted (example_event 9223372036854775807 '''')
   \<and> sint (Delta (example_event 9223372036854775807 ''''))
        + sint (Delta (example_event 9223372036854775807 '''')) = 18446744073709551614
   \<and> bucket_delta (handle_deltas Map.empty
        [(example_hour False, example_event 9223372036854775807 ''''),
         (example_hour False, example_event 9223372036854775807 '''')]) (1, 2, ''2024-06-01'', 14) =
       SqlReal (Finite 18446744073709551616)"
proof -
  have a: "counted (example_event 10 '''')" "counted (example_event 5 '''')"
    "sint (Delta (example_event 10 '''')) + sint (Delta (example_event 5 '''')) = 15"
    "counted (example_event 9223372036854775807 '''')"
    "sint (Delta (example_event 9223372036854775807 ''''))
        + sint (Delta (example_event 9223372036854775807 '''')) = 18446744073709551614"
    by (simp_all add: counted_def example_event_def)
  from a example_bucket example_lost example_overflow show ?thesis by simp
qed

section \<open>Heartbeater (shingo-edge/messaging/heartbeat.go)\<close>

text \<open>
  What the heartbeater does on the outside: a call of \<open>client.PublishEnvelope\<close>, and
  a wait in \<open>select { case <-h.stopCh: ... case <-time.After(backoff): }\<close>, with the
  backoff in seconds and the case the select took.
\<close>

datatype select_case = StopSignalled | TimerFired

datatype 'e hb_action = ActPublish 'e | ActWait nat select_case

text \<open>
  What the world answers during one call of \<open>publishWithRetry\<close>: the error of the
  publish of each attempt (\<open>None\<close> is \<open>nil\<close>), and which case the select after it
  takes.
\<close>

record retry_env =
  publish_result :: "nat \<Rightarrow> string option"
  wait_result :: "nat \<Rightarrow> select_case"

text \<open>
  The loop \<open>for attempt := 0; attempt < 3; attempt++\<close> with its variables \<open>err\<close>
  and \<open>backoff\<close>; the calls made so far are carried along.
\<close>

function publishWithRetry_loop ::
  "retry_env \<Rightarrow> 'e \<Rightarrow> nat \<Rightarrow> nat \<Rightarrow> string option \<Rightarrow> 'e hb_action list
     \<Rightarrow> string option \<times> 'e hb_action list" where
  "publishWithRetry_loop w env attempt backoff err tr =
     (if attempt < 3 then
        (case publish_result w attempt of
           None \<Rightarrow> (None, tr @ [ActPublish env])
         | Some e \<Rightarrow>
             (case wait_result w attempt of
                StopSignalled \<Rightarrow> (Some e, tr @ [ActPublish env, ActWait backoff StopSignalled])
              | TimerFired \<Rightarrow>
                  publishWithRetry_loop w env (Suc attempt) (backoff * 2) (Some e)
                    (tr @ [ActPublish env, ActWait backoff TimerFired])))
      else (err, tr))"
  by pat_completeness auto
termination
  by (relation "measure (\<lambda>(w, env, attempt, backoff, err, tr). 3 - attempt)") auto

definition publishWithRetry :: "retry_env \<Rightarrow> 'e \<Rightarrow> string option \<times> 'e hb_action list" where
  "publishWithRetry w env = publishWithRetry_loop w env 0 2 None []"

text \<open>
  \<open>sendHeartbeat\<close>: build the envelope (\<open>NewDataEnvelope\<close>, declared outside src/,
  may return an error), publish it once, log a failure.  The result is the calls made
  and whether a failure was logged.
\<close>

record EdgeHeartbeat =
  StationID :: string
  Uptime :: int
  Orders :: int

record heartbeat_env =
  uptime_seconds :: int
  envelope_result :: "EdgeHeartbeat \<Rightarrow> string + EdgeHeartbeat"
  heartbeat_publish_result :: "string option"

definition sendHeartbeat ::
  "string \<Rightarrow> (unit \<Rightarrow> int) option \<Rightarrow> heartbeat_env \<Rightarrow> EdgeHeartbeat hb_action list \<times> string list" where
  "sendHeartbeat stationID orderCountFn w =
     (let uptime = uptime_seconds w;
          activeOrders = (case orderCountFn of None \<Rightarrow> 0 | Some f \<Rightarrow> f ())
      in case envelope_result w \<lparr>StationID = stationID, Uptime = uptime, Orders = activeOrders\<rparr> of
           Inl err \<Rightarrow> ([], [''heartbeater: build heartbeat''])
         | Inr env \<Rightarrow>
             (case heartbeat_publish_result w of
                Some err \<Rightarrow> ([ActPublish env], [''heartbeater: send heartbeat''])
              | None \<Rightarrow> ([ActPublish env], [])))"

text \<open>The publish attempts and the backoff waits among a list of calls.\<close>

fun is_publish :: "'e hb_action \<Rightarrow> bool" where
  "is_publish (ActPublish env) = True"
| "is_publish (ActWait n c) = False"

fun waits :: "'e hb_action list \<Rightarrow> nat list" where
  "waits [] = []"
| "waits (ActPublish env # as) = waits as"
| "waits (ActWait n c # as) = n # waits as"

text \<open>Example worlds for the scenarios below.\<close>

definition failing_until :: "nat \<Rightarrow> nat \<Rightarrow> retry_env" where
  "failing_until ok stop =
     \<lparr>publish_result = (\<lambda>k. if k < ok
                             then Some (if k = 0 then ''error #1''
                                        else if k = 1 then ''error #2'' else ''error #3'')
                             else None),
      wait_result = (\<lambda>k. if k = stop then StopSignalled else TimerFired)\<rparr>"

subsection \<open>Properties of the heartbeater\<close>

declare publishWithRetry_loop.simps [simp del]

lemma retry_loop_exit:
  "\<not> attempt < 3 \<Longrightarrow> publishWithRetry_loop w env attempt backoff err tr = (err, tr)"
  by (subst publishWithRetry_loop.simps) simp

lemma retry_loop_ok:
  "attempt < 3 \<Longrightarrow> publish_result w attempt = None \<Longrightarrow>
     publishWithRetry_loop w env attempt backoff err tr = (None, tr @ [ActPublish env])"
  by (subst publishWithRetry_loop.simps) simp

lemma retry_loop_stop:
  "attempt < 3 \<Longrightarrow> publish_result w attempt = Some e \<Longrightarrow> wait_result w attempt = StopSignalled \<Longrightarrow>
     publishWithRetry_loop w env attempt backoff err tr =
       (Some e, tr @ [ActPublish env, ActWait backoff StopSignalled])"
  by (subst publishWithRetry_loop.simps) simp

lemma retry_loop_again:
  "attempt < 3 \<Longrightarrow> publish_result w attempt = Some e \<Longrightarrow> wait_result w attempt = TimerFired \<Longrightarrow>
     publishWithRetry_loop w env attempt backoff err tr =
       publishWithRetry_loop w env (Suc attempt) (backoff * 2) (Some e)
         (tr @ [ActPublish env, ActWait backoff TimerFired])"
  by (subst publishWithRetry_loop.simps) simp

lemma publishWithRetry_unfold:
  "publishWithRetry w env =
     (case publish_result w 0 of
        None \<Rightarrow> (None, [ActPublish env])
      | Some e0 \<Rightarrow>
          (case wait_result w 0 of
             StopSignalled \<Rightarrow> (Some e0, [ActPublish env, ActWait 2 StopSignalled])
           | TimerFired \<Rightarrow>
               (case publish_result w 1 of
                  None \<Rightarrow> (None, [ActPublish env, ActWait 2 TimerFired, ActPublish env])
                | Some e1 \<Rightarrow>
                    (case wait_result w 1 of
                       StopSignalled \<Rightarrow>
                         (Some e1, [ActPublish env, ActWait 2 TimerFired,
                                    ActPublish env, ActWait 4 StopSignalled])
                     | TimerFired \<Rightarrow>
                         (case publish_result w 2 of
                            None \<Rightarrow>
                              (None, [ActPublish env, ActWait 2 TimerFired,
                                      ActPublish env, ActWait 4 TimerFired, ActPublish env])
                          | Some e2 \<Rightarrow>
                              (Some e2, [ActPublish env, ActWait 2 TimerFired,
                                         ActPublish env, ActWait 4 TimerFired,
                                         ActPublish env, ActWait 8 (wait_result w 2)]))))))"
proof (cases "publish_result w 0")
  case None
  then show ?thesis by (simp add: publishWithRetry_def retry_loop_ok)
next
  case e0: (Some e0)
  show ?thesis
  proof (cases "wait_result w 0")
    case StopSignalled
    with e0 show ?thesis by (simp add: publishWithRetry_def retry_loop_stop)
  next
    case t0: TimerFired
    have s0: "publishWithRetry w env =
        publishWithRetry_loop w env (Suc 0) 4 (Some e0) [ActPublish env, ActWait 2 TimerFired]"
      using e0 t0 by (simp add: publishWithRetry_def retry_loop_again)
    show ?thesis
    proof (cases "publish_result w 1")
      case None
      with e0 t0 show ?thesis by (simp add: s0 retry_loop_ok)
    next
      case e1: (Some e1)
      show ?thesis
      proof (cases "wait_result w 1")
        case StopSignalled
        with e0 t0 e1 show ?thesis by (simp add: s0 retry_loop_stop)
      next
        case t1: TimerFired
        have s1: "publishWithRetry w env =
            publishWithRetry_loop w env (Suc (Suc 0)) 8 (Some e1)
              [ActPublish env, ActWait 2 TimerFired, ActPublish env, ActWait 4 TimerFired]"
          using e1 t1 by (simp add: s0 retry_loop_again)
        show ?thesis
        proof (cases "publish_result w 2")
          case None
          with e0 t0 e1 t1 show ?thesis by (simp add: s1 retry_loop_ok numeral_2_eq_2)
        next
          case e2: (Some e2)
          show ?thesis
          proof (cases "wait_result w 2")
            case StopSignalled
            with e0 t0 e1 t1 e2 show ?thesis by (simp add: s1 retry_loop_stop numeral_2_eq_2)
          next
            case TimerFired
            with e0 t0 e1 t1 e2 show ?thesis
              by (simp add: s1 retry_loop_again retry_loop_exit numeral_2_eq_2 numeral_3_eq_3)
          qed
        qed
      qed
    qed
  qed
qed

lemma publishWithRetry_attempts:
  "length (filter is_publish (snd (publishWithRetry w env))) \<le> 3"
  by (simp add: publishWithRetry_unfold split: option.splits select_case.splits)

lemma publishWithRetry_waits:
  "waits (snd (publishWithRetry w env)) =
     take (length (waits (snd (publishWithRetry w env)))) [2, 4, 8]"
  by (simp add: publishWithRetry_unfold split: option.splits select_case.splits)

lemma sendHeartbeat_once:
  "length (filter is_publish (fst (sendHeartbeat stationID orderCountFn hw))) \<le> 1"
  by (simp add: sendHeartbeat_def Let_def split: sum.splits option.splits)

text \<open>
  C7.  \<open>publishWithRetry\<close> makes at most three publish attempts and waits 2, 4 and
  8 seconds after the first, second and third failed attempt.  When the stop channel
  fires during a wait it returns the error of the attempt just made and publishes
  nothing more: if the first attempt fails and Stop arrives during the first wait,
  there is no second attempt.  \<open>sendHeartbeat\<close>, called once per tick, publishes at
  most once, and exactly once when its envelope is built, whether or not that publish
  fails.
\<close>

theorem publishWithRetry_bounded:
  "publishWithRetry w env =
     (case publish_result w 0 of
        None \<Rightarrow> (None, [ActPublish env])
      | Some e0 \<Rightarrow>
          (case wait_result w 0 of
             StopSignalled \<Rightarrow> (Some e0, [ActPublish env, ActWait 2 StopSignalled])
           | TimerFired \<Rightarrow>
               (case publish_result w 1 of
                  None \<Rightarrow> (None, [ActPublish env, ActWait 2 TimerFired, ActPublish env])
                | Some e1 \<Rightarrow>
                    (case wait_result w 1 of
                       StopSignalled \<Rightarrow>
                         (Some e1, [ActPublish env, ActWait 2 TimerFired,
                                    ActPublish env, ActWait 4 StopSignalled])
                     | TimerFired \<Rightarrow>
                         (case publish_result w 2 of
                            None \<Rightarrow>
                              (None, [ActPublish env, ActWait 2 TimerFired,
                                      ActPublish env, ActWait 4 TimerFired, ActPublish env])
                          | Some e2 \<Rightarrow>
                              (Some e2, [ActPublish env, ActWait 2 TimerFired,
                                         ActPublish env, ActWait 4 TimerFired,
                                         ActPublish env, ActWait 8 (wait_result w 2)]))))))
   \<and> length (filter is_publish (snd (publishWithRetry w env))) \<le> 3
   \<and> waits (snd (publishWithRetry w env)) =
       take (length (waits (snd (publishWithRetry w env)))) [2, 4, 8]
   \<and> (publish_result w 0 = Some e \<and> wait_result w 0 = StopSignalled \<longrightarrow>
        publishWithRetry w env = (Some e, [ActPublish env, ActWait 2 StopSignalled]))
   \<and> length (filter is_publish (fst (sendHeartbeat stationID orderCountFn hw))) \<le> 1
   \<and> (envelope_result hw
          \<lparr>StationID = stationID, Uptime = uptime_seconds hw,
           Orders = (case orderCountFn of None \<Rightarrow> 0 | Some f \<Rightarrow> f ())\<rparr> = Inr body \<longrightarrow>
        fst (sendHeartbeat stationID orderCountFn hw) = [ActPublish body])"
proof (intro conjI impI)
  show "publishWithRetry w env =
     (case publish_result w 0 of
        None \<Rightarrow> (None, [ActPublish env])
      | Some e0 \<Rightarrow>
          (case wait_result w 0 of
             StopSignalled \<Rightarrow> (Some e0, [ActPublish env, ActWait 2 StopSignalled])
           | TimerFired \<Rightarrow>
               (case publish_result w 1 of
                  None \<Rightarrow> (None, [ActPublish env, ActWait 2 TimerFired, ActPublish env])
                | Some e1 \<Rightarrow>
                    (case wait_result w 1 of
                       StopSignalled \<Rightarrow>
                         (Some e1, [ActPublish env, ActWait 2 TimerFired,
                                    ActPublish env, ActWait 4 StopSignalled])
                     | TimerFired \<Rightarrow>
                         (case publish_result w 2 of
                            None \<Rightarrow>
                              (None, [ActPublish env, ActWait 2 TimerFired,
                                      ActPublish env, ActWait 4 TimerFired, ActPublish env])
                          | Some e2 \<Rightarrow>
                              (Some e2, [ActPublish env, ActWait 2 TimerFired,
                                         ActPublish env, ActWait 4 TimerFired,
                                         ActPublish env, ActWait 8 (wait_result w 2)]))))))"
    by (rule publishWithRetry_unfold)
next
  show "length (filter is_publish (snd (publishWithRetry w env))) \<le> 3"
    by (rule publishWithRetry_attempts)
next
  show "waits (snd (publishWithRetry w env)) =
       take (length (waits (snd (publishWithRetry w env)))) [2, 4, 8]"
    by (rule publishWithRetry_waits)
next
  assume "publish_result w 0 = Some e \<and> wait_result w 0 = StopSignalled"
  then show "publishWithRetry w env = (Some e, [ActPublish env, ActWait 2 StopSignalled])"
    by (simp add: publishWithRetry_unfold)
next
  show "length (filter is_publish (fst (sendHeartbeat stationID orderCountFn hw))) \<le> 1"
    by (rule sendHeartbeat_once)
next
  assume "envelope_result hw
          \<lparr>StationID = stationID, Uptime = uptime_seconds hw,
           Orders = (case orderCountFn of None \<Rightarrow> 0 | Some f \<Rightarrow> f ())\<rparr> = Inr body"
  then show "fst (sendHeartbeat stationID orderCountFn hw) = [ActPublish body]"
    by (simp add: sendHeartbeat_def Let_def split: option.splits)
qed

theorem publishWithRetry_bounded_witness:
  "publish_result (failing_until 3 0) 0 = Some ''error #1''
   \<and> wait_result (failing_until 3 0) 0 = StopSignalled
   \<and> publishWithRetry (failing_until 3 0) ''register'' =
       (Some ''error #1'', [ActPublish ''register'', ActWait 2 StopSignalled])
   \<and> publishWithRetry (failing_until 3 5) ''register'' =
       (Some ''error #3'',
        [ActPublish ''register'', ActWait 2 TimerFired, ActPublish ''register'',
         ActWait 4 TimerFired, ActPublish ''register'', ActWait 8 TimerFired])
   \<and> publishWithRetry (failing_until 1 5) ''register'' =
       (None, [ActPublish ''register'', ActWait 2 TimerFired, ActPublish ''register''])
   \<and> fst (sendHeartbeat ''edge-1'' None
        \<lparr>uptime_seconds = 60, envelope_result = Inr, heartbeat_publish_result = Some ''down''\<rparr>) =
       [ActPublish \<lparr>StationID = ''edge-1'', Uptime = 60, Orders = 0\<rparr>]"
proof -
  have p: "publish_result (failing_until 3 0) 0 = Some ''error #1''"
    and s: "wait_result (failing_until 3 0) 0 = StopSignalled"
    by (simp_all add: failing_until_def)
  note a = publishWithRetry_bounded [where w = "failing_until 3 0" and env = "''register''"
      and e = "''error #1''" and stationID = "''edge-1''" and orderCountFn = None
      and hw = "\<lparr>uptime_seconds = 60, envelope_result = Inr, heartbeat_publish_result = Some ''down''\<rparr>"
      and body = "\<lparr>StationID = ''edge-1'', Uptime = 60, Orders = 0\<rparr>"]
  note b = publishWithRetry_bounded [where w = "failing_until 3 5" and env = "''register''"]
  note c = publishWithRetry_bounded [where w = "failing_until 1 5" and env = "''register''"]
  from a p s have c1: "publishWithRetry (failing_until 3 0) ''register'' =
       (Some ''error #1'', [ActPublish ''register'', ActWait 2 StopSignalled])"
    by blast
  from a have c2: "fst (sendHeartbeat ''edge-1'' None
        \<lparr>uptime_seconds = 60, envelope_result = Inr, heartbeat_publish_result = Some ''down''\<rparr>) =
       [ActPublish \<lparr>StationID = ''edge-1'', Uptime = 60, Orders = 0\<rparr>]"
    by simp
  from b have c3: "publishWithRetry (failing_until 3 5) ''register'' =
       (Some ''error #3'',
        [ActPublish ''register'', ActWait 2 TimerFired, ActPublish ''register'',
         ActWait 4 TimerFired, ActPublish ''register'', ActWait 8 TimerFired])"
    by (simp add: failing_until_def)
  from c have c4: "publishWithRetry (failing_until 1 5) ''register'' =
       (None, [ActPublish ''register'', ActWait 2 TimerFired, ActPublish ''register''])"
    by (simp add: failing_until_def)
  from p s c1 c2 c3 c4 show ?thesis by simp
qed

section \<open>Core handler: production reports (shingo-core/messaging/core_handler.go)\<close>

text \<open>
  The payload structs are declared outside src/; their fields are the ones
  \<open>handleProductionReport\<close> reads and writes.
\<close>

record ProductionReportEntry =
  CatID :: string
  Count :: int

record ProductionReport =
  ReportStationID :: string
  Reports :: "ProductionReportEntry list"

record ProductionReportAck =
  AckStationID :: string
  Accepted :: int

text \<open>
  The calls the handler makes on the store and on the bus client, and the lines it
  logs on an error.
\<close>

datatype core_call =
    CallIncrementProduced string int
  | CallLogProduction string string int
  | CallPublishReply string ProductionReportAck

datatype report_log =
    LogIncrementProducedFailed string
  | LogLogProductionFailed string
  | LogBuildAckFailed
  | LogPublishAckFailed

text \<open>
  What the world answers while one report is handled: whether \<open>IncrementProduced\<close>
  and \<open>LogProduction\<close> return an error for the \<open>k\<close>-th entry of the report, whether
  \<open>NewDataReply\<close> does, and whether the publish of the reply does.
\<close>

record report_env =
  increment_err :: "nat \<Rightarrow> bool"
  log_production_err :: "nat \<Rightarrow> bool"
  build_reply_err :: bool
  publish_reply_err :: bool

text \<open>
  The loop \<open>for _, entry := range rpt.Reports\<close> with its counter \<open>accepted\<close>; the
  state is the counter, the calls made and the lines logged.
\<close>

fun report_loop ::
  "report_env \<Rightarrow> string \<Rightarrow> nat \<Rightarrow> ProductionReportEntry list
     \<Rightarrow> int \<times> core_call list \<times> report_log list \<Rightarrow> int \<times> core_call list \<times> report_log list" where
  "report_loop w stationID k [] st = st"
| "report_loop w stationID k (entry # rest) (accepted, tr, logs) =
     (if CatID entry = '''' \<or> Count entry \<le> 0 then
        report_loop w stationID (Suc k) rest (accepted, tr, logs)
      else if increment_err w k then
        report_loop w stationID (Suc k) rest
          (accepted,
           tr @ [CallIncrementProduced (CatID entry) (Count entry)],
           logs @ [LogIncrementProducedFailed (CatID entry)])
      else
        report_loop w stationID (Suc k) rest
          (accepted + 1,
           tr @ [CallIncrementProduced (CatID entry) (Count entry),
                 CallLogProduction (CatID entry) stationID (Count entry)],
           logs @ (if log_production_err w k then [LogLogProductionFailed (CatID entry)] else [])))"

text \<open>
  \<open>handleProductionReport\<close>: the loop, then the reply
  \<open>ProductionReportAck{StationID: rpt.StationID, Accepted: accepted}\<close> published on
  the dispatch topic.
\<close>

definition handleProductionReport ::
  "report_env \<Rightarrow> string \<Rightarrow> ProductionReport \<Rightarrow> core_call list \<times> report_log list" where
  "handleProductionReport w dispatchTopic rpt =
     (case report_loop w (ReportStationID rpt) 0 (Reports rpt) (0, [], []) of
        (accepted, tr, logs) \<Rightarrow>
          if build_reply_err w then (tr, logs @ [LogBuildAckFailed])
          else
            (tr @ [CallPublishReply dispatchTopic
                     \<lparr>AckStationID = ReportStationID rpt, Accepted = accepted\<rparr>],
             logs @ (if publish_reply_err w then [LogPublishAckFailed] else [])))"



text \<open>Example report for the scenario below.\<close>

definition example_report :: ProductionReport where
  "example_report =
     \<lparr>ReportStationID = ''edge-1'',
      Reports = [\<lparr>CatID = ''A'', Count = 3\<rparr>, \<lparr>CatID = '''', Count = 4\<rparr>,
                 \<lparr>CatID = ''B'', Count = 0\<rparr>, \<lparr>CatID = ''C'', Count = 5\<rparr>,
                 \<lparr>CatID = ''D'', Count = 6\<rparr>]\<rparr>"

definition example_report_env :: report_env where
  "example_report_env =
     \<lparr>increment_err = (\<lambda>k. k = 3), log_production_err = (\<lambda>k. k = 4),
      build_reply_err = False, publish_reply_err = False\<rparr>"

subsection \<open>Properties of the production report handler\<close>





lemma example_report_result:
  "handleProductionReport example_report_env ''dispatch'' example_report =
     ([CallIncrementProduced ''A'' 3, CallLogProduction ''A'' ''edge-1'' 3,
       CallIncrementProduced ''C'' 5,
       CallIncrementProduced ''D'' 6, CallLogProduction ''D'' ''edge-1'' 6,
       CallPublishReply ''dispatch'' \<lparr>AckStationID = ''edge-1'', Accepted = 2\<rparr>],
      [LogIncrementProducedFailed ''C'', LogLogProductionFailed ''D''])"
  by (simp add: handleProductionReport_def example_report_def example_report_env_def)



section \<open>Stopping the background loops\<close>

text \<open>
  Every long-running component runs one goroutine of the shape
  \<open>for { select { case <-stopChan: return; case <-ticker.C: body() } }\<close>.  The
  goroutine is either blocked in the select, or running the tick body, or has
  returned.  The stop channel is unbuffered and nothing is ever sent on it except by
  a \<open>Stop\<close> that sends; it is closed or not.
\<close>

datatype component = EdgeDrainer | CoreDrainer | FleetPoller | Heartbeater | StaleEdgeSweeper

datatype phase = InSelect | InTick | Returned

record loop_state =
  phase :: phase
  stop_closed :: bool

text \<open>
  \<open>Stop\<close>, component by component.
  \<^item> Edge drainer: \<open>select { case <-d.stopChan: default: close(d.stopChan) }\<close>: the
    receive is ready only on a closed channel, so the first call closes the channel
    and a later call does nothing.  (The \<open>d.wg.Wait()\<close> that follows blocks the caller
    until the loop has returned; it changes no state.)
  \<^item> Core drainer and fleet poller: \<open>select { case stopChan <- struct{}{}: default: }\<close>:
    a send on an unbuffered channel goes through only if the loop is blocked in its
    select at that moment, and the loop then takes the stop case and returns;
    otherwise the default case is taken and nothing happens.
  \<^item> Heartbeater and stale-edge sweeper: \<open>stopOnce.Do(func() { close(stopCh) })\<close>.
\<close>

fun Stop :: "component \<Rightarrow> loop_state \<Rightarrow> loop_state" where
  "Stop EdgeDrainer s = (if stop_closed s then s else s\<lparr>stop_closed := True\<rparr>)"
| "Stop CoreDrainer s = (if phase s = InSelect then s\<lparr>phase := Returned\<rparr> else s)"
| "Stop FleetPoller s = (if phase s = InSelect then s\<lparr>phase := Returned\<rparr> else s)"
| "Stop Heartbeater s = (if stop_closed s then s else s\<lparr>stop_closed := True\<rparr>)"
| "Stop StaleEdgeSweeper s = (if stop_closed s then s else s\<lparr>stop_closed := True\<rparr>)"

text \<open>
  One step of the loop goroutine.  Blocked in the select, it takes the case the
  runtime chooses: the stop case can be taken only when the channel is closed (a
  receive on an open channel with no sender is not ready), the ticker case starts the
  tick body.  The tick body ends and the loop is back in the select.
\<close>

definition loop_step :: "select_case \<Rightarrow> loop_state \<Rightarrow> loop_state" where
  "loop_step choice s =
     (case phase s of
        InSelect \<Rightarrow>
          (case choice of
             StopSignalled \<Rightarrow> (if stop_closed s then s\<lparr>phase := Returned\<rparr> else s)
           | TimerFired \<Rightarrow> s\<lparr>phase := InTick\<rparr>)
      | InTick \<Rightarrow> s\<lparr>phase := InSelect\<rparr>
      | Returned \<Rightarrow> s)"

fun run_loop :: "(nat \<Rightarrow> select_case) \<Rightarrow> nat \<Rightarrow> loop_state \<Rightarrow> loop_state" where
  "run_loop sched 0 s = s"
| "run_loop sched (Suc n) s = loop_step (sched n) (run_loop sched n s)"

definition busy :: loop_state where
  "busy = \<lparr>phase = InTick, stop_closed = False\<rparr>"

subsection \<open>Properties of the stop gates\<close>

lemma Stop_idempotent: "Stop c (Stop c s) = Stop c s"
  by (cases c) simp_all

lemma open_never_returns:
  assumes "\<not> stop_closed s" "phase s \<noteq> Returned"
  shows "\<not> stop_closed (run_loop sched n s) \<and> phase (run_loop sched n s) \<noteq> Returned"
proof (induction n)
  case 0
  from assms show ?case by simp
next
  case (Suc n)
  then show ?case
    by (auto simp: loop_step_def split: phase.splits select_case.splits)
qed

lemma closed_stays_closed: "stop_closed s \<Longrightarrow> stop_closed (run_loop sched n s)"
  by (induction n) (auto simp: loop_step_def split: phase.splits select_case.splits)

lemma closed_returns:
  assumes "stop_closed s"
  shows "phase (run_loop (\<lambda>k. StopSignalled) 2 s) = Returned"
proof -
  have "run_loop (\<lambda>k. StopSignalled) 2 s
          = loop_step StopSignalled (loop_step StopSignalled s)"
    by (simp add: numeral_2_eq_2)
  with assms show ?thesis
    by (cases "phase s") (simp_all add: loop_step_def)
qed

text \<open>
  C8 says: for every long-running component, \<open>Stop\<close> is idempotent, and once
  \<open>Stop\<close> has been called the loop terminates, whether the loop is waiting in its
  select or running a tick body at that moment.  The first half holds for all five
  components.  The second half holds for the edge drainer, the heartbeater and the
  stale-edge sweeper, whose \<open>Stop\<close> closes the channel: the stop case stays ready and
  the loop returns as soon as its select takes it.  It fails for the core drainer and
  the fleet poller: called while the loop runs a tick body, their \<open>Stop\<close> changes
  nothing, and the loop never returns, whatever the schedule.
\<close>

theorem stop_signal_lost:
  "Stop CoreDrainer busy = busy
   \<and> Stop FleetPoller busy = busy
   \<and> (\<forall>sched n. phase (run_loop sched n (Stop CoreDrainer busy)) \<noteq> Returned)
   \<and> (\<forall>sched n. phase (run_loop sched n (Stop FleetPoller busy)) \<noteq> Returned)
   \<and> phase (run_loop (\<lambda>k. StopSignalled) 2 (Stop EdgeDrainer busy)) = Returned
   \<and> phase (run_loop (\<lambda>k. StopSignalled) 2 (Stop Heartbeater busy)) = Returned
   \<and> phase (run_loop (\<lambda>k. StopSignalled) 2 (Stop StaleEdgeSweeper busy)) = Returned
   \<and> (\<forall>c s. Stop c (Stop c s) = Stop c s)"
proof -
  have b: "\<not> stop_closed busy" "phase busy \<noteq> Returned" "phase busy \<noteq> InSelect"
    by (simp_all add: busy_def)
  have l1: "Stop CoreDrainer busy = busy" and l2: "Stop FleetPoller busy = busy"
    using b by simp_all
  have n: "\<forall>sched n. phase (run_loop sched n busy) \<noteq> Returned"
    using open_never_returns [OF b(1) b(2)] by blast
  have c: "stop_closed (Stop EdgeDrainer busy)" "stop_closed (Stop Heartbeater busy)"
    "stop_closed (Stop StaleEdgeSweeper busy)"
    by (simp_all add: busy_def)
  from l1 l2 n c show ?thesis
    by (simp add: closed_returns Stop_idempotent)
qed

end
